theory Spec2Isabelle
  imports Complex_Main "HOL-Library.Sublist"
begin

section \<open>Strings and numbers of the host language\<close>

text \<open>
  Strings are modelled as \<^typ>\<open>string\<close>, a list of characters; a character is a UTF-16 code
  unit below 256 (ASCII and Latin-1), and strings with other code units are outside the
  model. Template literals are concatenation. A number that is an index (\<open>i + 1\<close>) is a
  \<^typ>\<open>nat\<close> and is rendered in decimal, as the template literal does for every integer
  below \<open>10^21\<close>.
\<close>

definition digit_char :: "nat \<Rightarrow> char" where
  "digit_char d = ''0123456789'' ! (d mod 10)"

fun show_nat :: "nat \<Rightarrow> string" where
  "show_nat n = (if n < 10 then [digit_char n] else show_nat (n div 10) @ [digit_char n])"

declare show_nat.simps [simp del]

text \<open>\<open>Array.prototype.join\<close>: the separator stands between the elements only.\<close>

fun join :: "string \<Rightarrow> string list \<Rightarrow> string" where
  "join sep [] = []"
| "join sep [x] = x"
| "join sep (x # y # ys) = x @ sep @ join sep (y # ys)"

subsection \<open>Numbers\<close>

text \<open>
  A vector component is a double: a finite double is the real number it denotes (the two
  zeros are one value: they are equal under \<open>===\<close> and both falsy), beside the two infinities
  and NaN. The arithmetic on doubles belongs to the runtime, not to the repository: it is
  passed in as a \<open>js_arith\<close>, and \<open>double_arith\<close> below defines the IEEE 754 one. Clock readings
  and similarity scores, which the code only passes on or subtracts, are reals.
\<close>

datatype js_number = Num real | PInf | NInf | NaN

record js_arith =
  num_add :: "js_number \<Rightarrow> js_number \<Rightarrow> js_number"
  num_mul :: "js_number \<Rightarrow> js_number \<Rightarrow> js_number"
  num_div :: "js_number \<Rightarrow> js_number \<Rightarrow> js_number"
  num_sqrt :: "js_number \<Rightarrow> js_number"

text \<open>The falsy numbers are zero and NaN.\<close>

definition falsy_number :: "js_number \<Rightarrow> bool" where
  "falsy_number n = (n = Num 0 \<or> n = NaN)"

section \<open>Data model (src/types.ts)\<close>

text \<open>
  \<open>RetrievedChunk\<close>. A field of type \<open>T | null\<close> is a \<^typ>\<open>'a option\<close>. The field \<open>id\<close> is
  named \<open>chunk_id\<close> and the field \<open>section\<close> is named \<open>section_name\<close> here; \<open>metadata\<close>
  (of type \<open>any\<close>, never read by the code) is kept as its text.
\<close>

record RetrievedChunk =
  chunk_id :: int
  content :: string
  source_url :: "string option"
  section_name :: "string option"
  topic :: "string option"
  token_count :: "int option"
  chunk_method :: string
  metadata :: string
  similarity :: real

record SearchResult =
  chunks :: "RetrievedChunk list"
  latencyMs :: real
  embeddingMs :: real
  k :: int

section \<open>Prompt Builder (src/lib/prompt.ts)\<close>

text \<open>
  \<open>const url = c.source_url ?? ""\<close>: only \<open>null\<close> is replaced.
  \<open>const sec = c.section ? ` [${c.section}]` : ""\<close>: the test is truthiness, so \<open>null\<close>
  and the empty string both give the empty suffix.
\<close>

definition chunk_url :: "RetrievedChunk \<Rightarrow> string" where
  "chunk_url c = (case source_url c of None \<Rightarrow> '''' | Some u \<Rightarrow> u)"

definition chunk_sec :: "RetrievedChunk \<Rightarrow> string" where
  "chunk_sec c =
     (case section_name c of
        None \<Rightarrow> ''''
      | Some s \<Rightarrow> if s = '''' then '''' else '' ['' @ s @ '']'')"

text \<open>
  The callback of \<open>top.map((c, i) => ...)\<close>; \<open>i\<close> is the zero-based position. The
  parameter \<open>top\<close> is named \<open>tops\<close> below.
\<close>

definition context_block :: "nat \<Rightarrow> RetrievedChunk \<Rightarrow> string" where
  "context_block i c =
     ''[['' @ show_nat (i + 1) @ '']] '' @ content c @
     ''\<newline>SOURCE: '' @ chunk_url c @ chunk_sec c @ ''\<newline>''"

definition context_blocks :: "RetrievedChunk list \<Rightarrow> string list" where
  "context_blocks tops = map (\<lambda>(i, c). context_block i c) (enumerate 0 tops)"

definition prompt_context :: "RetrievedChunk list \<Rightarrow> string" where
  "prompt_context tops = join ''\<newline>'' (context_blocks tops)"

definition buildGroundedPrompt :: "string \<Rightarrow> RetrievedChunk list \<Rightarrow> string" where
  "buildGroundedPrompt userQuestion tops =
     ''You are a helpful assistant for JioPay.\<newline>'' @
     ''Answer the question using ONLY the context.\<newline>'' @
     ''If the answer is not in the context, say you don't know.\<newline>'' @
     ''\<newline>'' @
     ''Question:\<newline>'' @
     userQuestion @ ''\<newline>'' @
     ''\<newline>'' @
     ''Context:\<newline>'' @
     prompt_context tops @ ''\<newline>'' @
     ''\<newline>'' @
     ''Instructions:\<newline>'' @
     ''- Be concise (<= 6 sentences).\<newline>'' @
     ''- Cite sources inline using bracket numbers like [1], [2] matching the provided SOURCES.\<newline>'' @
     ''- Do not fabricate information.\<newline>'' @
     ''\<newline>'' @
     ''Final Answer:''"

section \<open>Embedding Client (src/lib/hf.ts)\<close>

subsection \<open>Errors, provider traffic and the world\<close>

text \<open>
  A thrown value is a \<open>js_error\<close>: the \<open>name\<close> and \<open>message\<close> of the error object and,
  for an \<open>AxiosError\<close> that came with an HTTP answer, its \<open>response\<close> (status code and
  body; the body is kept as its text, the empty text being the falsy body). Every \<open>throw\<close>
  of the source is an \<open>Inl\<close> of the model.
\<close>

record http_response =
  status :: nat
  resp_data :: string

record js_error =
  err_name :: string
  err_message :: string
  response :: "http_response option"

text \<open>
  The body of a successful answer of the embedding provider: a batch of vectors, one
  vector, or a value that is no array at all (then \<open>vec.map\<close> raises a \<open>TypeError\<close>, whose
  engine-given message the constructor carries).
\<close>

datatype hf_data = Batch "js_number list list" | Single "js_number list" | Malformed string

text \<open>
  One \<open>axios.post\<close>: the model of the URL (\<open>HF_BASE/models/encodeURIComponent(modelId)\<close>),
  the \<open>inputs\<close> of the payload (its \<open>options\<close> are the constant \<open>wait_for_model: true\<close>)
  and the \<open>Authorization\<close> header. Model identifiers are well-formed strings, on which
  \<open>encodeURIComponent\<close> is total and one-to-one, so the call is recorded by its identifier.
\<close>

record hf_call =
  call_model :: string
  call_inputs :: string
  call_authorization :: string

text \<open>
  The arguments of \<open>sb.rpc("jiopay_similarity_search", ...)\<close> and its answer, the pair
  \<open>{data, error}\<close> the client resolves with; of the error only \<open>message\<close> is read.
\<close>

record rpc_call =
  query_embedding :: "js_number list"
  match_count :: int
  source_filter :: "string option"
  topic_filter :: "string option"
  content_type_filter :: "string option"
  min_similarity :: real
  metadata_filter :: "(string \<times> string) list"

record PostgrestError =
  message :: string

record rpc_response =
  data :: "RetrievedChunk list option"
  error :: "PostgrestError option"

datatype console_entry = Warn string | ErrorLine string string

text \<open>
  The environment holds what the module reads from outside: the \<open>import.meta.env\<close>
  variables and the three remote services, each answering a call in the light of the calls
  made before it, the readings of \<open>performance.now()\<close> in the order they are taken, and the
  arithmetic of the runtime.
\<close>

record env =
  VITE_HF_TOKEN :: "string option"
  VITE_EMBEDDING_MODEL :: "string option"
  VITE_EMBEDDING_MODEL_FALLBACK :: "string option"
  hf_post :: "hf_call list \<Rightarrow> hf_call \<Rightarrow> js_error + hf_data"
  sb_rpc :: "rpc_call list \<Rightarrow> rpc_call \<Rightarrow> rpc_response"
  gemini :: "string list \<Rightarrow> string \<Rightarrow> js_error + string"
  clock :: "nat \<Rightarrow> real"
  arith :: js_arith

text \<open>The world records every effect: the calls sent, the console lines, the clock reads.\<close>

record world =
  posts :: "hf_call list"
  rpcs :: "rpc_call list"
  gens :: "string list"
  console :: "console_entry list"
  ticks :: nat

definition performance_now :: "env \<Rightarrow> world \<Rightarrow> real \<times> world" where
  "performance_now e w = (clock e (ticks w), w\<lparr>ticks := Suc (ticks w)\<rparr>)"

subsection \<open>Configuration\<close>

text \<open>\<open>(import.meta.env.X as string) || "default"\<close>: an unset or empty variable gives the default.\<close>

definition or_default :: "string option \<Rightarrow> string \<Rightarrow> string" where
  "or_default v d = (case v of None \<Rightarrow> d | Some s \<Rightarrow> if s = '''' then d else s)"

definition EMB_PRIMARY :: "env \<Rightarrow> string" where
  "EMB_PRIMARY e = or_default (VITE_EMBEDDING_MODEL e) ''BAAI/bge-small-en-v1.5''"

definition EMB_FALLBACK :: "env \<Rightarrow> string" where
  "EMB_FALLBACK e =
     or_default (VITE_EMBEDDING_MODEL_FALLBACK e) ''sentence-transformers/all-MiniLM-L6-v2''"

definition missing_token_error :: js_error where
  "missing_token_error =
     \<lparr>err_name = ''Error'', err_message = ''Missing VITE_HF_TOKEN in .env'', response = None\<rparr>"

text \<open>\<open>if (!HF_TOKEN) throw ...\<close>: an unset and an empty token are both falsy.\<close>

definition authHeaders :: "env \<Rightarrow> js_error + string" where
  "authHeaders e =
     (case VITE_HF_TOKEN e of
        None \<Rightarrow> Inl missing_token_error
      | Some t \<Rightarrow> if t = '''' then Inl missing_token_error else Inr (''Bearer '' @ t))"

subsection \<open>Normalisation and query formatting\<close>

text \<open>
  \<open>Math.sqrt(vec.reduce((s, v) => s + v * v, 0)) || 1\<close>, then \<open>vec.map((v) => v / n)\<close>, in the
  arithmetic \<open>ar\<close> of the runtime.
\<close>

definition l2norm_divisor :: "js_arith \<Rightarrow> js_number list \<Rightarrow> js_number" where
  "l2norm_divisor ar vec =
     (let s = num_sqrt ar (foldl (\<lambda>s v. num_add ar s (num_mul ar v v)) (Num 0) vec)
      in if falsy_number s then Num 1 else s)"

definition l2norm :: "js_arith \<Rightarrow> js_number list \<Rightarrow> js_number list" where
  "l2norm ar vec = (let n = l2norm_divisor ar vec in map (\<lambda>v. num_div ar v n) vec)"

text \<open>
  \<open>toLowerCase\<close>: the upper-case letters below 256 are \<open>A\<close> to \<open>Z\<close> and the code units 0xC0 to
  0xDE but 0xD7; each has its lower case 0x20 above it.
\<close>

definition lower_table :: "(char \<times> char) list" where
  "lower_table =
     zip (''ABCDEFGHIJKLMNOPQRSTUVWXYZ'' @
          [CHR 0xC0, CHR 0xC1, CHR 0xC2, CHR 0xC3, CHR 0xC4, CHR 0xC5, CHR 0xC6, CHR 0xC7,
           CHR 0xC8, CHR 0xC9, CHR 0xCA, CHR 0xCB, CHR 0xCC, CHR 0xCD, CHR 0xCE, CHR 0xCF,
           CHR 0xD0, CHR 0xD1, CHR 0xD2, CHR 0xD3, CHR 0xD4, CHR 0xD5, CHR 0xD6, CHR 0xD8,
           CHR 0xD9, CHR 0xDA, CHR 0xDB, CHR 0xDC, CHR 0xDD, CHR 0xDE])
         (''abcdefghijklmnopqrstuvwxyz'' @
          [CHR 0xE0, CHR 0xE1, CHR 0xE2, CHR 0xE3, CHR 0xE4, CHR 0xE5, CHR 0xE6, CHR 0xE7,
           CHR 0xE8, CHR 0xE9, CHR 0xEA, CHR 0xEB, CHR 0xEC, CHR 0xED, CHR 0xEE, CHR 0xEF,
           CHR 0xF0, CHR 0xF1, CHR 0xF2, CHR 0xF3, CHR 0xF4, CHR 0xF5, CHR 0xF6, CHR 0xF8,
           CHR 0xF9, CHR 0xFA, CHR 0xFB, CHR 0xFC, CHR 0xFD, CHR 0xFE])"

definition toLowerChar :: "char \<Rightarrow> char" where
  "toLowerChar c = (case map_of lower_table c of None \<Rightarrow> c | Some l \<Rightarrow> l)"

definition toLowerCase :: "string \<Rightarrow> string" where
  "toLowerCase s = map toLowerChar s"

text \<open>\<open>s.includes(t)\<close>: \<open>t\<close> occurs in \<open>s\<close> as a contiguous run.\<close>

definition includes_str :: "string \<Rightarrow> string \<Rightarrow> bool" where
  "includes_str s t = sublist t s"

definition formatQueryForEmbedding :: "string \<Rightarrow> string \<Rightarrow> string" where
  "formatQueryForEmbedding q modelId =
     (let ident = toLowerCase modelId in
      if includes_str ident ''bge''
      then ''Represent this sentence for searching relevant passages: '' @ q
      else if includes_str ident ''e5'' then ''query: '' @ q
      else q)"

subsection \<open>Embedding calls\<close>

text \<open>
  \<open>Array.isArray(data?.[0]) ? data[0] : data\<close>, then \<open>vec.map(Number)\<close>: the first vector of
  a non-empty batch, the array itself otherwise, and a \<open>TypeError\<close> when there is no array.
\<close>

fun response_vec :: "hf_data \<Rightarrow> js_error + js_number list" where
  "response_vec (Batch []) = Inr []"
| "response_vec (Batch (v # vs)) = Inr v"
| "response_vec (Single v) = Inr v"
| "response_vec (Malformed m) =
     Inl \<lparr>err_name = ''TypeError'', err_message = m, response = None\<rparr>"

text \<open>
  The arguments of \<open>axios.post\<close> are evaluated before the call, so \<open>authHeaders()\<close> throws
  before anything is sent.
\<close>

definition embedWithModel ::
  "env \<Rightarrow> string \<Rightarrow> string \<Rightarrow> world \<Rightarrow> (js_error + js_number list) \<times> world" where
  "embedWithModel e modelId input w =
     (case authHeaders e of
        Inl err \<Rightarrow> (Inl err, w)
      | Inr h \<Rightarrow>
          (let c = \<lparr>call_model = modelId, call_inputs = input, call_authorization = h\<rparr>;
               w' = w\<lparr>posts := posts w @ [c]\<rparr>
           in case hf_post e (posts w) c of
                Inl err \<Rightarrow> (Inl err, w')
              | Inr d \<Rightarrow>
                  (case response_vec d of
                     Inl err \<Rightarrow> (Inl err, w')
                   | Inr vec \<Rightarrow> (Inr (l2norm (arith e) vec), w'))))"

text \<open>\<open>(e as AxiosError)?.response?.status\<close>\<close>

definition error_status :: "js_error \<Rightarrow> nat option" where
  "error_status err = map_option status (response err)"

text \<open>\<open>status === 402 || status === 403 || status === 404 || status === 429\<close>\<close>

definition fallback_status :: "nat option \<Rightarrow> bool" where
  "fallback_status st = (st = Some 402 \<or> st = Some 403 \<or> st = Some 404 \<or> st = Some 429)"

text \<open>\<open>(e as AxiosError).response?.data || (e as Error).message\<close>\<close>

definition error_detail :: "js_error \<Rightarrow> string" where
  "error_detail err =
     (case response err of
        None \<Rightarrow> err_message err
      | Some r \<Rightarrow> if resp_data r = '''' then err_message err else resp_data r)"

definition console_warn :: "string \<Rightarrow> world \<Rightarrow> world" where
  "console_warn line w = w\<lparr>console := console w @ [Warn line]\<rparr>"

definition console_error :: "string \<Rightarrow> string \<Rightarrow> world \<Rightarrow> world" where
  "console_error label detail w = w\<lparr>console := console w @ [ErrorLine label detail]\<rparr>"

text \<open>The template literal of the warning; \<open>undefined\<close> cannot be the status on this path.\<close>

definition fallback_warning :: "env \<Rightarrow> nat option \<Rightarrow> string" where
  "fallback_warning e st =
     ''[embed] '' @ EMB_PRIMARY e @ '' -> '' @
     (case st of None \<Rightarrow> ''undefined'' | Some n \<Rightarrow> show_nat n) @
     ''. Falling back to '' @ EMB_FALLBACK e"

definition embedQuery ::
  "env \<Rightarrow> string \<Rightarrow> world \<Rightarrow> (js_error + js_number list) \<times> world" where
  "embedQuery e query w =
     (case embedWithModel e (EMB_PRIMARY e) (formatQueryForEmbedding query (EMB_PRIMARY e)) w of
        (Inr vec, w1) \<Rightarrow> (Inr vec, w1)
      | (Inl err, w1) \<Rightarrow>
          (let st = error_status err in
           if fallback_status st
           then embedWithModel e (EMB_FALLBACK e)
                  (formatQueryForEmbedding query (EMB_FALLBACK e))
                  (console_warn (fallback_warning e st) w1)
           else (Inl err, console_error ''HF embed error:'' (error_detail err) w1)))"

section \<open>Similarity Search (src/lib/search.ts)\<close>

text \<open>
  \<open>semanticSearch(query, k = 5)\<close>: an omitted count is \<open>None\<close>. \<open>throw new Error(error.message)\<close>
  is a plain \<open>Error\<close> with the message of the store. The third clock reading is taken after
  the error test.
\<close>

definition rpc_args :: "js_number list \<Rightarrow> int \<Rightarrow> rpc_call" where
  "rpc_args emb n =
     \<lparr>query_embedding = emb, match_count = n, source_filter = None, topic_filter = None,
      content_type_filter = None, min_similarity = 0, metadata_filter = []\<rparr>"

definition plain_error :: "string \<Rightarrow> js_error" where
  "plain_error m = \<lparr>err_name = ''Error'', err_message = m, response = None\<rparr>"

definition semanticSearch ::
  "env \<Rightarrow> string \<Rightarrow> int option \<Rightarrow> world \<Rightarrow> (js_error + SearchResult) \<times> world" where
  "semanticSearch e query kopt w =
     (let n = (case kopt of None \<Rightarrow> 5 | Some n \<Rightarrow> n);
          (t0, wa) = performance_now e w
      in case embedQuery e query wa of
           (Inl err, wb) \<Rightarrow> (Inl err, wb)
         | (Inr emb, wb) \<Rightarrow>
             (let (t1, wc) = performance_now e wb;
                  c = rpc_args emb n;
                  r = sb_rpc e (rpcs wc) c;
                  wd = wc\<lparr>rpcs := rpcs wc @ [c]\<rparr>
              in case error r of
                   Some pe \<Rightarrow> (Inl (plain_error (message pe)), wd)
                 | None \<Rightarrow>
                     (let (t2, we) = performance_now e wd;
                          cs = (case data r of None \<Rightarrow> [] | Some d \<Rightarrow> d)
                      in (Inr \<lparr>chunks = cs, latencyMs = t2 - t1, embeddingMs = t1 - t0, k = n\<rparr>,
                          we))))"

section \<open>Answer Generator (src/lib/hf.ts)\<close>

text \<open>
  \<open>String.prototype.trim\<close> strips white space and line terminators; those below 256 are
  tab, line feed, vertical tab, form feed, carriage return, space and no-break space.
\<close>

definition js_space :: "char \<Rightarrow> bool" where
  "js_space c =
     (c \<in> set [CHR 0x09, CHR 0x0A, CHR 0x0B, CHR 0x0C, CHR 0x0D, CHR 0x20, CHR 0xA0])"

definition trim :: "string \<Rightarrow> string" where
  "trim s = rev (dropWhile js_space (rev (dropWhile js_space s)))"

text \<open>
  \<open>generateContent\<close> and \<open>result.response.text()\<close> are the remote model: its failure is an
  \<open>Inl\<close> of \<open>gemini\<close>, its text is trimmed.
\<close>

definition generateAnswer :: "env \<Rightarrow> string \<Rightarrow> world \<Rightarrow> (js_error + string) \<times> world" where
  "generateAnswer e prompt w =
     (let w' = w\<lparr>gens := gens w @ [prompt]\<rparr>
      in case gemini e (gens w) prompt of
           Inl err \<Rightarrow> (Inl err, w')
         | Inr txt \<Rightarrow> (Inr (trim txt), w'))"

section \<open>Orchestration (src/components/Chat.tsx, function ask)\<close>

datatype role = User | Assistant

record Message =
  role :: role
  msg_text :: string
  citations :: "RetrievedChunk list option"

record latencies =
  embed :: real
  search :: real
  gen :: real

text \<open>
  The component state that \<open>ask\<close> reads and sets. The field \<open>text\<close> of a message is named
  \<open>msg_text\<close> and the state \<open>k\<close> is named \<open>count_k\<close>. State updates take effect in the order
  they are queued; moving the input focus changes none of this state.
\<close>

record chat =
  q :: string
  busy :: bool
  messages :: "Message list"
  count_k :: int
  lastChunks :: "RetrievedChunk list"
  latency :: latencies

text \<open>
  \<open>${e}\<close> of an error object is \<open>Error.prototype.toString\<close>; \<open>e?.message || e\<close> takes the
  message unless it is empty.
\<close>

definition error_toString :: "js_error \<Rightarrow> string" where
  "error_toString err =
     (if err_name err = '''' then err_message err
      else if err_message err = '''' then err_name err
      else err_name err @ '': '' @ err_message err)"

definition surfaced :: "js_error \<Rightarrow> string" where
  "surfaced err = (if err_message err = '''' then error_toString err else err_message err)"

definition failure_turn :: "js_error \<Rightarrow> Message" where
  "failure_turn err =
     \<lparr>role = Assistant,
      msg_text = ''Sorry, something went wrong:\<newline>'' @ surfaced err,
      citations = None\<rparr>"

text \<open>The body of \<open>try\<close>: the error caught, if any, with the state and world reached.\<close>

definition ask_try :: "env \<Rightarrow> string \<Rightarrow> chat \<Rightarrow> world \<Rightarrow> js_error option \<times> chat \<times> world" where
  "ask_try e question st w =
     (case semanticSearch e question (Some (count_k st)) w of
        (Inl err, wa) \<Rightarrow> (Some err, st, wa)
      | (Inr sr, wa) \<Rightarrow>
          (let sa = st\<lparr>lastChunks := chunks sr\<rparr>;
               prompt = buildGroundedPrompt question (chunks sr);
               (t0, wb) = performance_now e wa
           in case generateAnswer e prompt wb of
                (Inl err, wc) \<Rightarrow> (Some err, sa, wc)
              | (Inr answer, wc) \<Rightarrow>
                  (let (t1, wd) = performance_now e wc;
                       sb = sa\<lparr>latency :=
                              \<lparr>embed = embeddingMs sr, search = latencyMs sr, gen = t1 - t0\<rparr>\<rparr>;
                       sc = sb\<lparr>messages := messages sb @
                              [\<lparr>role = Assistant, msg_text = answer,
                                citations = Some (chunks sr)\<rparr>]\<rparr>
                   in (None, sc, wd))))"

definition ask :: "env \<Rightarrow> chat \<Rightarrow> world \<Rightarrow> chat \<times> world" where
  "ask e st w =
     (if trim (q st) = '''' \<or> busy st then (st, w)
      else
        (let sa = st\<lparr>busy := True\<rparr>;
             sb = sa\<lparr>messages := messages sa @
                    [\<lparr>role = User, msg_text = trim (q st), citations = None\<rparr>]\<rparr>;
             (caught, sc, wa) = ask_try e (trim (q st)) sb w;
             sd = (case caught of
                     None \<Rightarrow> sc
                   | Some err \<Rightarrow> sc\<lparr>messages := messages sc @ [failure_turn err]\<rparr>)
         in (sd\<lparr>busy := False, q := ''''\<rparr>, wa)))"

section \<open>Vocabulary of the properties\<close>

text \<open>
  The failure classes of the embedding provider, read off the HTTP status of the error:
  402 payment required, 403 forbidden, 404 not found, 429 rate limited.
\<close>

datatype failure_class = PaymentRequired | Forbidden | NotFound | RateLimited | OtherFailure

definition classify :: "js_error \<Rightarrow> failure_class" where
  "classify err =
     (case error_status err of
        None \<Rightarrow> OtherFailure
      | Some st \<Rightarrow>
          if st = 402 then PaymentRequired
          else if st = 403 then Forbidden
          else if st = 404 then NotFound
          else if st = 429 then RateLimited
          else OtherFailure)"

text \<open>Reading a decimal numeral back, the inverse of \<open>show_nat\<close>.\<close>

definition digit_val :: "char \<Rightarrow> nat" where
  "digit_val c = (case map_of (zip ''0123456789'' [0..<10]) c of None \<Rightarrow> 0 | Some d \<Rightarrow> d)"

definition read_nat :: "string \<Rightarrow> nat" where
  "read_nat s = foldl (\<lambda>a c. 10 * a + digit_val c) 0 s"

text \<open>
  The unit roundoff of doubles; the range of results that neither overflow nor fall below
  the normal doubles; and the standard model of rounding error: an operation on finite
  operands whose exact result lies in that range returns a finite double within the relative
  error \<open>unit_roundoff\<close> of it. A component is moderate when it is zero or of magnitude
  between \<open>2^-500\<close> and \<open>2^500\<close>, so that its square is in the range.
\<close>

definition unit_roundoff :: real where
  "unit_roundoff = 1 / 2 ^ 53"

definition normal_range :: "real \<Rightarrow> bool" where
  "normal_range r = (r = 0 \<or> (1 / 2 ^ 1022 \<le> \<bar>r\<bar> \<and> \<bar>r\<bar> \<le> 2 ^ 1023))"

definition standard_model :: "js_arith \<Rightarrow> bool" where
  "standard_model ar =
     ((\<forall>x y. normal_range (x * y) \<longrightarrow>
         (\<exists>z. num_mul ar (Num x) (Num y) = Num z \<and> \<bar>z - x * y\<bar> \<le> unit_roundoff * \<bar>x * y\<bar>)) \<and>
      (\<forall>x y. normal_range (x + y) \<longrightarrow>
         (\<exists>z. num_add ar (Num x) (Num y) = Num z \<and> \<bar>z - (x + y)\<bar> \<le> unit_roundoff * \<bar>x + y\<bar>)) \<and>
      (\<forall>x y. y \<noteq> 0 \<and> normal_range (x / y) \<longrightarrow>
         (\<exists>z. num_div ar (Num x) (Num y) = Num z \<and> \<bar>z - x / y\<bar> \<le> unit_roundoff * \<bar>x / y\<bar>)) \<and>
      (\<forall>x. 0 \<le> x \<and> normal_range (sqrt x) \<longrightarrow>
         (\<exists>z. num_sqrt ar (Num x) = Num z \<and> \<bar>z - sqrt x\<bar> \<le> unit_roundoff * sqrt x)))"

definition moderate :: "real \<Rightarrow> bool" where
  "moderate x = (x = 0 \<or> (1 / 2 ^ 500 \<le> \<bar>x\<bar> \<and> \<bar>x\<bar> \<le> 2 ^ 500))"

section \<open>IEEE 754 double arithmetic\<close>

text \<open>
  Binary64 arithmetic, round to nearest, ties to even: the exact result is rounded to a
  multiple of \<open>2^e\<close>, where \<open>e\<close> is 52 below the binary exponent of the result and at least
  -1074; a magnitude of \<open>2^1024 - 2^970\<close> or more overflows to an infinity. The special
  values follow IEEE 754; a zero divisor counts as positive.
\<close>

definition round_half_even :: "real \<Rightarrow> int" where
  "round_half_even qv =
     (let f = \<lfloor>qv\<rfloor>; d = qv - of_int f
      in if d < 1 / 2 then f else if 1 / 2 < d then f + 1 else if even f then f else f + 1)"

definition double_exponent :: "real \<Rightarrow> int" where
  "double_exponent r = max (\<lfloor>log 2 \<bar>r\<bar>\<rfloor> - 52) (- 1074)"

definition round_double :: "real \<Rightarrow> js_number" where
  "round_double r =
     (if 2 ^ 1024 - 2 ^ 970 \<le> \<bar>r\<bar> then (if 0 < r then PInf else NInf)
      else if r = 0 then Num 0
      else (let p = 2 powr of_int (double_exponent r)
            in Num (of_int (round_half_even (r / p)) * p)))"

fun double_add :: "js_number \<Rightarrow> js_number \<Rightarrow> js_number" where
  "double_add (Num x) (Num y) = round_double (x + y)"
| "double_add NaN b = NaN"
| "double_add a NaN = NaN"
| "double_add PInf NInf = NaN"
| "double_add NInf PInf = NaN"
| "double_add PInf b = PInf"
| "double_add a PInf = PInf"
| "double_add NInf b = NInf"
| "double_add a NInf = NInf"

fun double_mul :: "js_number \<Rightarrow> js_number \<Rightarrow> js_number" where
  "double_mul (Num x) (Num y) = round_double (x * y)"
| "double_mul NaN b = NaN"
| "double_mul a NaN = NaN"
| "double_mul PInf (Num y) = (if y = 0 then NaN else if 0 < y then PInf else NInf)"
| "double_mul NInf (Num y) = (if y = 0 then NaN else if 0 < y then NInf else PInf)"
| "double_mul (Num x) PInf = (if x = 0 then NaN else if 0 < x then PInf else NInf)"
| "double_mul (Num x) NInf = (if x = 0 then NaN else if 0 < x then NInf else PInf)"
| "double_mul PInf PInf = PInf"
| "double_mul PInf NInf = NInf"
| "double_mul NInf PInf = NInf"
| "double_mul NInf NInf = PInf"

fun double_div :: "js_number \<Rightarrow> js_number \<Rightarrow> js_number" where
  "double_div (Num x) (Num y) =
     (if y = 0 then (if x = 0 then NaN else if 0 < x then PInf else NInf)
      else round_double (x / y))"
| "double_div NaN b = NaN"
| "double_div a NaN = NaN"
| "double_div (Num x) b = Num 0"
| "double_div PInf (Num y) = (if 0 \<le> y then PInf else NInf)"
| "double_div NInf (Num y) = (if 0 \<le> y then NInf else PInf)"
| "double_div a b = NaN"

fun double_sqrt :: "js_number \<Rightarrow> js_number" where
  "double_sqrt (Num x) = (if x < 0 then NaN else round_double (sqrt x))"
| "double_sqrt PInf = PInf"
| "double_sqrt a = NaN"

definition double_arith :: js_arith where
  "double_arith =
     \<lparr>num_add = double_add, num_mul = double_mul, num_div = double_div, num_sqrt = double_sqrt\<rparr>"

section \<open>Example data\<close>

text \<open>
  Two chunks for the question \<open>What is KYC?\<close>; the second has no URL and an empty section.
\<close>

definition kyc_chunk_1 :: RetrievedChunk where
  "kyc_chunk_1 =
     \<lparr>chunk_id = 11, content = ''KYC means Know Your Customer.'',
      source_url = Some ''https://jiopay.com/faq'', section_name = Some ''Onboarding'',
      topic = None, token_count = None, chunk_method = ''semantic'', metadata = ''{}'',
      similarity = 0.91\<rparr>"

definition kyc_chunk_2 :: RetrievedChunk where
  "kyc_chunk_2 =
     \<lparr>chunk_id = 12, content = ''Upload a PAN card.'',
      source_url = None, section_name = Some '''',
      topic = None, token_count = None, chunk_method = ''semantic'', metadata = ''{}'',
      similarity = 0.78\<rparr>"

text \<open>
  An environment with a token, the default models and double arithmetic, in which the
  primary model is rate limited, the fallback model answers with the batch \<open>[[0, 2]]\<close> and the
  vector store is down; the same with the store up; the same with the store up and a
  generation service that fails with an error of empty message; the same without a token.
  The question of the example chat state starts with a no-break space.
\<close>

definition rate_limited :: js_error where
  "rate_limited =
     \<lparr>err_name = ''AxiosError'', err_message = ''Request failed with status code 429'',
      response = Some \<lparr>status = 429, resp_data = ''Too Many Requests''\<rparr>\<rparr>"

definition demo_env :: env where
  "demo_env =
     \<lparr>VITE_HF_TOKEN = Some ''hf_demo'', VITE_EMBEDDING_MODEL = None,
      VITE_EMBEDDING_MODEL_FALLBACK = None,
      hf_post = (\<lambda>hist c. if call_model c = ''BAAI/bge-small-en-v1.5''
                            then Inl rate_limited else Inr (Batch [[Num 0, Num 2]])),
      sb_rpc = (\<lambda>hist c. \<lparr>data = None, error = Some \<lparr>message = ''connection reset''\<rparr>\<rparr>),
      gemini = (\<lambda>hist p. Inr '' KYC means Know Your Customer [1]. ''),
      clock = (\<lambda>n. 10 * real n),
      arith = double_arith\<rparr>"

definition world0 :: world where
  "world0 = \<lparr>posts = [], rpcs = [], gens = [], console = [], ticks = 0\<rparr>"

definition store_up_env :: env where
  "store_up_env = demo_env\<lparr>sb_rpc := (\<lambda>hist c. \<lparr>data = Some [kyc_chunk_1], error = None\<rparr>)\<rparr>"

definition gen_down_env :: env where
  "gen_down_env =
     store_up_env\<lparr>gemini :=
       (\<lambda>hist p. Inl \<lparr>err_name = ''Error'', err_message = '''', response = None\<rparr>)\<rparr>"

definition no_token_env :: env where
  "no_token_env = demo_env\<lparr>VITE_HF_TOKEN := None\<rparr>"

definition chat0 :: chat where
  "chat0 =
     \<lparr>q = CHR 0xA0 # '' What is KYC? '', busy = False, messages = [], count_k = 5,
      lastChunks = [], latency = \<lparr>embed = 0, search = 0, gen = 0\<rparr>\<rparr>"

definition demo_posts :: "hf_call list" where
  "demo_posts =
     [\<lparr>call_model = ''BAAI/bge-small-en-v1.5'',
       call_inputs = ''Represent this sentence for searching relevant passages: What is KYC?'',
       call_authorization = ''Bearer hf_demo''\<rparr>,
      \<lparr>call_model = ''sentence-transformers/all-MiniLM-L6-v2'',
       call_inputs = ''What is KYC?'', call_authorization = ''Bearer hf_demo''\<rparr>]"

definition demo_warning :: string where
  "demo_warning = ''[embed] BAAI/bge-small-en-v1.5 -> 429. Falling back to sentence-transformers/all-MiniLM-L6-v2''"

section \<open>Properties of the arithmetic\<close>

subsection \<open>Rounding error of the normalisation\<close>

lemma u_pos: "0 < unit_roundoff" and u_le: "unit_roundoff \<le> 1 / 2" and u_lt1: "unit_roundoff < 1"
  by (simp_all add: unit_roundoff_def)

lemma one_minus_u_pow: "n * unit_roundoff \<le> 1 / 2 \<Longrightarrow> 1 / 2 \<le> (1 - unit_roundoff) ^ n" for n :: nat
proof -
  assume a: "n * unit_roundoff \<le> 1 / 2"
  have "1 + real n * (- unit_roundoff) \<le> (1 + (- unit_roundoff)) ^ n"
    by (rule Bernoulli_inequality) (use u_le in simp)
  with a show ?thesis by simp
qed

lemma one_plus_u_pow: "n * unit_roundoff \<le> 1 / 2 \<Longrightarrow> (1 + unit_roundoff) ^ n \<le> 2" for n :: nat
proof -
  assume a: "n * unit_roundoff \<le> 1 / 2"
  have p: "0 < (1 - unit_roundoff) ^ n" using u_lt1 by simp
  have "(1 + unit_roundoff) * (1 - unit_roundoff) \<le> 1" using u_pos by (simp add: algebra_simps)
  moreover have "0 \<le> (1 + unit_roundoff) * (1 - unit_roundoff)" using u_pos u_lt1 by simp
  ultimately have "((1 + unit_roundoff) * (1 - unit_roundoff)) ^ n \<le> 1" by (simp add: power_le_one)
  then have "(1 + unit_roundoff) ^ n * (1 - unit_roundoff) ^ n \<le> 1" by (simp add: power_mult_distrib)
  moreover have "(1 + unit_roundoff) ^ n * (1 / 2) \<le> (1 + unit_roundoff) ^ n * (1 - unit_roundoff) ^ n"
    using one_minus_u_pow [OF a] u_pos by (intro mult_left_mono) simp_all
  ultimately show ?thesis by simp
qed

lemma sm_mul:
  assumes "standard_model ar" and "normal_range (x * y)"
  obtains z where "num_mul ar (Num x) (Num y) = Num z" "\<bar>z - x * y\<bar> \<le> unit_roundoff * \<bar>x * y\<bar>"
  using assms unfolding standard_model_def by blast

lemma sm_add:
  assumes "standard_model ar" and "normal_range (x + y)"
  obtains z where "num_add ar (Num x) (Num y) = Num z" "\<bar>z - (x + y)\<bar> \<le> unit_roundoff * \<bar>x + y\<bar>"
  using assms unfolding standard_model_def by blast

lemma sm_div:
  assumes "standard_model ar" and "y \<noteq> 0" and "normal_range (x / y)"
  obtains z where "num_div ar (Num x) (Num y) = Num z" "\<bar>z - x / y\<bar> \<le> unit_roundoff * \<bar>x / y\<bar>"
  using assms unfolding standard_model_def by blast

lemma sm_sqrt:
  assumes "standard_model ar" and "0 \<le> x" and "normal_range (sqrt x)"
  obtains z where "num_sqrt ar (Num x) = Num z" "\<bar>z - sqrt x\<bar> \<le> unit_roundoff * sqrt x"
  using assms unfolding standard_model_def by blast

lemma rel_bounds:
  assumes "\<bar>z - t\<bar> \<le> unit_roundoff * \<bar>t\<bar>" and "0 \<le> t"
  shows "(1 - unit_roundoff) * t \<le> z" and "z \<le> (1 + unit_roundoff) * t"
  using assms by (simp_all add: algebra_simps abs_le_iff)

lemma moderate_square:
  assumes "moderate x"
  shows "x * x = 0 \<or> (1 / 2 ^ 1000 \<le> x * x \<and> x * x \<le> 2 ^ 1000)"
proof (cases "x = 0")
  case True
  then show ?thesis by simp
next
  case False
  with assms have lo: "1 / 2 ^ 500 \<le> \<bar>x\<bar>" and hi: "\<bar>x\<bar> \<le> 2 ^ 500"
    by (simp_all add: moderate_def)
  have "(1 / 2 ^ 500) * (1 / 2 ^ 500) \<le> \<bar>x\<bar> * \<bar>x\<bar>"
    using lo by (intro mult_mono) simp_all
  moreover have "\<bar>x\<bar> * \<bar>x\<bar> \<le> 2 ^ 500 * 2 ^ 500"
    using hi by (intro mult_mono) simp_all
  moreover have "\<bar>x\<bar> * \<bar>x\<bar> = x * x" by simp
  ultimately show ?thesis by (simp add: power_add [symmetric])
qed

lemma square_bounds:
  assumes sm: "standard_model ar" and m: "moderate x"
  obtains qv where "num_mul ar (Num x) (Num x) = Num qv"
    and "(1 - unit_roundoff) * (x * x) \<le> qv" and "qv \<le> (1 + unit_roundoff) * (x * x)"
proof -
  have "normal_range (x * x)"
    using moderate_square [OF m] by (auto simp: normal_range_def)
  from sm_mul [OF sm this] obtain qv where qv: "num_mul ar (Num x) (Num x) = Num qv"
    and e: "\<bar>qv - x * x\<bar> \<le> unit_roundoff * \<bar>x * x\<bar>" by blast
  have "0 \<le> x * x" by simp
  with e have "\<bar>qv - x * x\<bar> \<le> unit_roundoff * \<bar>x * x\<bar>" by simp
  from rel_bounds [OF this \<open>0 \<le> x * x\<close>] qv that show thesis by blast
qed

lemma squares_nonneg: "0 \<le> (\<Sum>v\<leftarrow>vec. v * v)" for vec :: "real list"
  by (induction vec) simp_all

lemma pow_1mu_le1: "(1 - unit_roundoff) ^ n \<le> 1"
  using u_pos u_lt1 by (intro power_le_one) simp_all

lemma pow_1mu_nonneg: "0 \<le> (1 - unit_roundoff) ^ n"
  using u_lt1 by simp

lemma pow_1pu_ge1: "1 \<le> (1 + unit_roundoff) ^ n"
  using u_pos by (intro one_le_power) simp

lemma step_upper:
  assumes "a \<le> (1 + unit_roundoff) ^ j * E" and "qv \<le> (1 + unit_roundoff) * t" and "z \<le> (1 + unit_roundoff) * (a + qv)"
    and "0 \<le> E" and "0 \<le> t"
  shows "z \<le> (1 + unit_roundoff) ^ (j + 2) * (E + t)"
proof -
  have p: "(1 + unit_roundoff) ^ j \<le> (1 + unit_roundoff) ^ (j + 1)" using u_pos by (intro power_increasing) simp_all
  have p1: "1 + unit_roundoff \<le> (1 + unit_roundoff) ^ (j + 1)"
    using u_pos pow_1pu_ge1 [of j] by (simp add: mult_left_mono)
  have "a \<le> (1 + unit_roundoff) ^ (j + 1) * E"
    using assms(1) mult_right_mono [OF p assms(4)] by linarith
  moreover have "qv \<le> (1 + unit_roundoff) ^ (j + 1) * t"
    using assms(2) mult_right_mono [OF p1 assms(5)] by linarith
  ultimately have "a + qv \<le> (1 + unit_roundoff) ^ (j + 1) * (E + t)" by (simp add: algebra_simps)
  then have "(1 + unit_roundoff) * (a + qv) \<le> (1 + unit_roundoff) * ((1 + unit_roundoff) ^ (j + 1) * (E + t))"
    using u_pos by (intro mult_left_mono) simp_all
  with assms(3) show ?thesis by (simp add: algebra_simps)
qed

lemma step_lower:
  assumes "(1 - unit_roundoff) ^ j * E \<le> a" and "(1 - unit_roundoff) * t \<le> qv" and "(1 - unit_roundoff) * (a + qv) \<le> z"
    and "0 \<le> E" and "0 \<le> t"
  shows "(1 - unit_roundoff) ^ (j + 2) * (E + t) \<le> z"
proof -
  have p: "(1 - unit_roundoff) ^ (j + 1) \<le> (1 - unit_roundoff) ^ j"
    using u_pos u_lt1 by (intro power_decreasing) simp_all
  have p1: "(1 - unit_roundoff) ^ (j + 1) \<le> 1 - unit_roundoff"
    using u_lt1 pow_1mu_le1 [of j] by (simp add: mult_left_le)
  have "(1 - unit_roundoff) ^ (j + 1) * E \<le> a"
    using assms(1) mult_right_mono [OF p assms(4)] by linarith
  moreover have "(1 - unit_roundoff) ^ (j + 1) * t \<le> qv"
    using assms(2) mult_right_mono [OF p1 assms(5)] by linarith
  ultimately have "(1 - unit_roundoff) ^ (j + 1) * (E + t) \<le> a + qv" by (simp add: algebra_simps)
  then have "(1 - unit_roundoff) * ((1 - unit_roundoff) ^ (j + 1) * (E + t)) \<le> (1 - unit_roundoff) * (a + qv)"
    using u_lt1 by (intro mult_left_mono) simp_all
  with assms(3) show ?thesis by (simp add: algebra_simps)
qed

lemma sum_in_range:
  assumes a_lo: "(1 - unit_roundoff) ^ j * E \<le> a" and a_hi: "a \<le> (1 + unit_roundoff) ^ j * E"
    and q_lo: "(1 - unit_roundoff) * t \<le> qv" and q_hi: "qv \<le> (1 + unit_roundoff) * t"
    and E0: "0 \<le> E" and Er: "E = 0 \<or> 1 / 2 ^ 1000 \<le> E"
    and t0: "0 \<le> t" and tr: "t = 0 \<or> 1 / 2 ^ 1000 \<le> t"
    and cap: "E + t \<le> 2 ^ 1020" and cnt: "real j * unit_roundoff \<le> 1 / 2"
  shows "normal_range (a + qv)" and "0 \<le> a + qv"
proof -
  have h1: "1 / 2 \<le> (1 - unit_roundoff) ^ j" using cnt by (rule one_minus_u_pow)
  have h2: "(1 + unit_roundoff) ^ j \<le> 2" using cnt by (rule one_plus_u_pow)
  have a0: "0 \<le> a" using a_lo E0 pow_1mu_nonneg [of j] by (meson mult_nonneg_nonneg order_trans)
  have q0: "0 \<le> qv" using q_lo t0 u_lt1 by (meson diff_ge_0_iff_ge less_imp_le mult_nonneg_nonneg order_trans)
  show "0 \<le> a + qv" using a0 q0 by simp
  have "a \<le> 2 * E" using a_hi mult_right_mono [OF h2 E0] by linarith
  moreover have "qv \<le> 2 * t" using q_hi t0 u_le mult_right_mono [of "1 + unit_roundoff" 2 t] by linarith
  ultimately have "a + qv \<le> 2 * (E + t)" by simp
  also have "\<dots> \<le> 2 * 2 ^ 1020" using cap by simp
  also have "\<dots> \<le> (2::real) ^ 1023" by simp
  finally have hi: "a + qv \<le> 2 ^ 1023" .
  have lo: "a + qv = 0 \<or> 1 / 2 ^ 1022 \<le> a + qv"
  proof (cases "E = 0 \<and> t = 0")
    case True
    then have "a \<le> 0" "qv \<le> 0" using a_hi q_hi by simp_all
    with a0 q0 show ?thesis by simp
  next
    case False
    then consider "1 / 2 ^ 1000 \<le> E" | "1 / 2 ^ 1000 \<le> t" using Er tr by blast
    then show ?thesis
    proof cases
      case 1
      have "1 / 2 * (1 / 2 ^ 1000) \<le> (1 - unit_roundoff) ^ j * E"
        using h1 1 by (intro mult_mono) simp_all
      with a_lo q0 have "1 / 2 * (1 / 2 ^ 1000) \<le> a + qv" by linarith
      moreover have "(1::real) / 2 ^ 1022 \<le> 1 / 2 * (1 / 2 ^ 1000)" by simp
      ultimately show ?thesis by linarith
    next
      case 2
      have "1 / 2 * (1 / 2 ^ 1000) \<le> (1 - unit_roundoff) * t"
        using u_le 2 by (intro mult_mono) simp_all
      with q_lo a0 have "1 / 2 * (1 / 2 ^ 1000) \<le> a + qv" by linarith
      moreover have "(1::real) / 2 ^ 1022 \<le> 1 / 2 * (1 / 2 ^ 1000)" by simp
      ultimately show ?thesis by linarith
    qed
  qed
  from lo hi \<open>0 \<le> a + qv\<close> show "normal_range (a + qv)"
    by (auto simp: normal_range_def)
qed

lemma fold_bounds:
  assumes sm: "standard_model ar" and md: "\<forall>v\<in>set vs. moderate v"
    and a_lo: "(1 - unit_roundoff) ^ j * E \<le> a" and a_hi: "a \<le> (1 + unit_roundoff) ^ j * E"
    and E0: "0 \<le> E" and Er: "E = 0 \<or> 1 / 2 ^ 1000 \<le> E"
    and cap: "E + (\<Sum>v\<leftarrow>vs. v * v) \<le> 2 ^ 1020"
    and cnt: "real (j + 2 * length vs) * unit_roundoff \<le> 1 / 2"
  shows "\<exists>s. foldl (\<lambda>s v. num_add ar s (num_mul ar v v)) (Num a) (map Num vs) = Num s \<and>
           (1 - unit_roundoff) ^ (j + 2 * length vs) * (E + (\<Sum>v\<leftarrow>vs. v * v)) \<le> s \<and>
           s \<le> (1 + unit_roundoff) ^ (j + 2 * length vs) * (E + (\<Sum>v\<leftarrow>vs. v * v))"
  using md a_lo a_hi E0 Er cap cnt
proof (induction vs arbitrary: a E j)
  case Nil
  then show ?case by simp
next
  case (Cons v vs)
  let ?t = "v * v"
  have mv: "moderate v" using Cons.prems(1) by simp
  from square_bounds [OF sm mv] obtain qv where qv: "num_mul ar (Num v) (Num v) = Num qv"
    and q_lo: "(1 - unit_roundoff) * ?t \<le> qv" and q_hi: "qv \<le> (1 + unit_roundoff) * ?t" by blast
  have t0: "0 \<le> ?t" by simp
  have tr: "?t = 0 \<or> 1 / 2 ^ 1000 \<le> ?t" using moderate_square [OF mv] by blast
  have rest0: "0 \<le> (\<Sum>v\<leftarrow>vs. v * v)" by (rule squares_nonneg)
  have cap1: "E + ?t \<le> 2 ^ 1020" using Cons.prems(6) rest0 by simp
  have cntj: "real j * unit_roundoff \<le> 1 / 2"
  proof -
    have "real j * unit_roundoff \<le> real (j + 2 * length (v # vs)) * unit_roundoff"
      using u_pos by (intro mult_right_mono) simp_all
    with Cons.prems(7) show ?thesis by linarith
  qed
  note rng = sum_in_range [OF Cons.prems(2) Cons.prems(3) q_lo q_hi Cons.prems(4) Cons.prems(5)
      t0 tr cap1 cntj]
  from sm_add [OF sm rng(1)] obtain z where z: "num_add ar (Num a) (Num qv) = Num z"
    and ze: "\<bar>z - (a + qv)\<bar> \<le> unit_roundoff * \<bar>a + qv\<bar>" by blast
  from rel_bounds [OF ze rng(2)]
  have z_lo: "(1 - unit_roundoff) * (a + qv) \<le> z" and z_hi: "z \<le> (1 + unit_roundoff) * (a + qv)" by simp_all
  have lo': "(1 - unit_roundoff) ^ (j + 2) * (E + ?t) \<le> z"
    by (rule step_lower [OF Cons.prems(2) q_lo z_lo Cons.prems(4) t0])
  have hi': "z \<le> (1 + unit_roundoff) ^ (j + 2) * (E + ?t)"
    by (rule step_upper [OF Cons.prems(3) q_hi z_hi Cons.prems(4) t0])
  have E0': "0 \<le> E + ?t" using Cons.prems(4) by simp
  have Er': "E + ?t = 0 \<or> 1 / 2 ^ 1000 \<le> E + ?t"
    using Cons.prems(4) Cons.prems(5) tr t0 by (smt (verit))
  have cap': "E + ?t + (\<Sum>v\<leftarrow>vs. v * v) \<le> 2 ^ 1020" using Cons.prems(6) by simp
  have cnt': "real (j + 2 + 2 * length vs) * unit_roundoff \<le> 1 / 2" using Cons.prems(7) by simp
  have md': "\<forall>v\<in>set vs. moderate v" using Cons.prems(1) by simp
  from Cons.IH [OF md' lo' hi' E0' Er' cap' cnt']
  obtain s where s: "foldl (\<lambda>s v. num_add ar s (num_mul ar v v)) (Num z) (map Num vs) = Num s"
    and s_lo: "(1 - unit_roundoff) ^ (j + 2 + 2 * length vs) * (E + ?t + (\<Sum>v\<leftarrow>vs. v * v)) \<le> s"
    and s_hi: "s \<le> (1 + unit_roundoff) ^ (j + 2 + 2 * length vs) * (E + ?t + (\<Sum>v\<leftarrow>vs. v * v))"
    by blast
  have e: "j + 2 + 2 * length vs = j + 2 * length (v # vs)" by simp
  have "foldl (\<lambda>s v. num_add ar s (num_mul ar v v)) (Num a) (map Num (v # vs)) = Num s"
    using s qv z by simp
  moreover have "(1 - unit_roundoff) ^ (j + 2 * length (v # vs)) * (E + (\<Sum>v\<leftarrow>v # vs. v * v)) \<le> s"
    using s_lo unfolding e by (simp add: add.assoc)
  moreover have "s \<le> (1 + unit_roundoff) ^ (j + 2 * length (v # vs)) * (E + (\<Sum>v\<leftarrow>v # vs. v * v))"
    using s_hi unfolding e by (simp add: add.assoc)
  ultimately show ?case by blast
qed

lemma sqrt_near_one:
  assumes "0 \<le> Y"
  shows "\<bar>sqrt Y - 1\<bar> \<le> \<bar>Y - 1\<bar>"
proof (cases "1 \<le> Y")
  case True
  then have s1: "1 \<le> sqrt Y" by simp
  then have "sqrt Y * 1 \<le> sqrt Y * sqrt Y" by (intro mult_left_mono) simp_all
  then have "sqrt Y \<le> Y" using assms by simp
  with s1 True show ?thesis by simp
next
  case False
  then have s1: "sqrt Y \<le> 1" by simp
  have s0: "0 \<le> sqrt Y" using assms by simp
  have "sqrt Y * sqrt Y \<le> sqrt Y * 1" using s1 s0 by (intro mult_left_mono) simp_all
  then have "Y \<le> sqrt Y" using assms by simp
  with s1 False show ?thesis by simp
qed

lemma final_tolerance:
  assumes lo: "(1 - unit_roundoff) ^ kk \<le> Y" and hi: "Y * (1 - unit_roundoff) ^ kk \<le> 1" and cnt: "real kk * unit_roundoff \<le> 1 / 2"
  shows "\<bar>sqrt Y - 1\<bar> \<le> 2 * real kk * unit_roundoff"
proof -
  let ?x = "real kk * unit_roundoff"
  let ?b = "(1 - unit_roundoff) ^ kk"
  have x0: "0 \<le> ?x" using u_pos by simp
  have "1 + real kk * (- unit_roundoff) \<le> (1 + (- unit_roundoff)) ^ kk"
    by (rule Bernoulli_inequality) (use u_le in simp)
  then have b: "1 - ?x \<le> ?b" by simp
  with cnt have bpos: "0 < ?b" by linarith
  have Y0: "0 \<le> Y" using lo bpos by linarith
  have low: "1 - ?x \<le> Y" using b lo by linarith
  have "Y * (1 - ?x) \<le> Y * ?b" using b Y0 by (intro mult_left_mono) simp_all
  with hi have yx: "Y * (1 - ?x) \<le> 1" by linarith
  have "(1 + 2 * ?x) * (1 - ?x) = 1 + ?x * (1 - 2 * ?x)" by (simp add: algebra_simps)
  moreover have "0 \<le> ?x * (1 - 2 * ?x)"
  proof -
    have "0 \<le> 1 - 2 * ?x" using cnt by linarith
    with x0 show ?thesis by (rule mult_nonneg_nonneg)
  qed
  ultimately have "1 \<le> (1 + 2 * ?x) * (1 - ?x)" by linarith
  with yx have "Y * (1 - ?x) \<le> (1 + 2 * ?x) * (1 - ?x)" by linarith
  moreover have "0 < 1 - ?x" using cnt by linarith
  ultimately have up: "Y \<le> 1 + 2 * ?x" by (simp add: mult_le_cancel_right)
  have "\<bar>Y - 1\<bar> \<le> 2 * ?x" using low up x0 by (simp add: abs_le_iff)
  with sqrt_near_one [OF Y0] show ?thesis by linarith
qed

lemma square_le_sum:
  "v \<in> set vec \<Longrightarrow> v * v \<le> (\<Sum>v\<leftarrow>vec. v * v)" for v :: real
proof (induction vec)
  case Nil
  then show ?case by simp
next
  case (Cons a vec)
  have r: "0 \<le> (\<Sum>v\<leftarrow>vec. v * v)" by (rule squares_nonneg)
  have aa: "0 \<le> a * a" by simp
  show ?case
  proof (cases "v = a")
    case True
    with r show ?thesis by simp
  next
    case False
    with Cons have "v * v \<le> (\<Sum>v\<leftarrow>vec. v * v)" by simp
    with aa have "v * v \<le> a * a + (\<Sum>v\<leftarrow>vec. v * v)" by linarith
    then show ?thesis by simp
  qed
qed

lemma sum_squares_le:
  fixes c :: real
  assumes "\<forall>v\<in>set vec. v * v \<le> c"
  shows "(\<Sum>v\<leftarrow>vec. v * v) \<le> real (length vec) * c"
  using assms by (induction vec) (simp_all add: algebra_simps)

lemma scaled_squares:
  fixes c :: real
  assumes "\<forall>v\<in>set vec. f v * f v \<le> c * (v * v)"
  shows "(\<Sum>v\<leftarrow>vec. f v * f v) \<le> c * (\<Sum>v\<leftarrow>vec. v * v)"
  using assms by (induction vec) (simp_all add: algebra_simps)

lemma scaled_squares_ge:
  fixes c :: real
  assumes "\<forall>v\<in>set vec. c * (v * v) \<le> f v * f v"
  shows "c * (\<Sum>v\<leftarrow>vec. v * v) \<le> (\<Sum>v\<leftarrow>vec. f v * f v)"
  using assms by (induction vec) (simp_all add: algebra_simps)

lemma rel_square:
  assumes "\<bar>z - t\<bar> \<le> unit_roundoff * \<bar>t\<bar>"
  shows "(1 - unit_roundoff) * (1 - unit_roundoff) * (t * t) \<le> z * z" and "z * z \<le> (1 + unit_roundoff) * (1 + unit_roundoff) * (t * t)"
proof -
  have "\<bar>z\<bar> \<le> \<bar>t\<bar> + \<bar>z - t\<bar>" by simp
  with assms have hi: "\<bar>z\<bar> \<le> (1 + unit_roundoff) * \<bar>t\<bar>" by (simp add: algebra_simps)
  have "\<bar>t\<bar> \<le> \<bar>z\<bar> + \<bar>z - t\<bar>" by simp
  with assms have lo: "(1 - unit_roundoff) * \<bar>t\<bar> \<le> \<bar>z\<bar>" by (simp add: algebra_simps)
  have lo0: "0 \<le> (1 - unit_roundoff) * \<bar>t\<bar>" using u_lt1 by simp
  have "\<bar>z\<bar> * \<bar>z\<bar> \<le> ((1 + unit_roundoff) * \<bar>t\<bar>) * ((1 + unit_roundoff) * \<bar>t\<bar>)"
    using hi by (intro mult_mono) simp_all
  moreover have "((1 - unit_roundoff) * \<bar>t\<bar>) * ((1 - unit_roundoff) * \<bar>t\<bar>) \<le> \<bar>z\<bar> * \<bar>z\<bar>"
    using lo lo0 by (intro mult_mono) simp_all
  moreover have "\<bar>z\<bar> * \<bar>z\<bar> = z * z" "\<bar>t\<bar> * \<bar>t\<bar> = t * t" by simp_all
  ultimately show "(1 - unit_roundoff) * (1 - unit_roundoff) * (t * t) \<le> z * z" and "z * z \<le> (1 + unit_roundoff) * (1 + unit_roundoff) * (t * t)"
    by (simp_all add: algebra_simps)
qed

lemma pow_split_lower: "b ^ (j + 2) * (a ^ j * S) = (a * b) ^ j * (b * b * S)" for a b S :: real
  by (simp add: power_mult_distrib power_add power2_eq_square mult_ac)

lemma pow_split_upper: "a * a * S * b ^ (j + 2) = (a * b) ^ 2 * (b ^ j * S)" for a b S :: real
  by (simp add: power_mult_distrib power_add power2_eq_square mult_ac)

lemma l2norm_unit_tolerance:
  assumes sm: "standard_model ar" and md: "\<forall>v\<in>set vec. moderate v"
    and nz: "\<exists>v\<in>set vec. v \<noteq> 0" and len: "length vec \<le> 2 ^ 20"
  shows "\<exists>out. l2norm ar (map Num vec) = map Num out \<and>
           \<bar>sqrt (\<Sum>z\<leftarrow>out. z * z) - 1\<bar> \<le> real (length vec + 2) / 2 ^ 51"
proof -
  let ?m = "length vec"
  let ?S = "\<Sum>v\<leftarrow>vec. v * v"
  let ?kk = "2 * ?m + 4"
  have lenr: "real ?m \<le> 2 ^ 20" using len by (metis of_nat_le_iff of_nat_numeral of_nat_power)
  have cntk: "real ?kk * unit_roundoff \<le> 1 / 2"
  proof -
    have "real ?kk \<le> 2 * 2 ^ 20 + 4" using lenr by simp
    then have "real ?kk * unit_roundoff \<le> (2 * 2 ^ 20 + 4) * unit_roundoff" using u_pos by (intro mult_right_mono) simp_all
    also have "\<dots> \<le> 1 / 2" by (simp add: unit_roundoff_def)
    finally show ?thesis .
  qed
  have cnt2m: "real (0 + 2 * ?m) * unit_roundoff \<le> 1 / 2"
  proof -
    have "real (0 + 2 * ?m) * unit_roundoff \<le> real ?kk * unit_roundoff" using u_pos by (intro mult_right_mono) simp_all
    with cntk show ?thesis by linarith
  qed
  have sq_hi: "\<forall>v\<in>set vec. v * v \<le> 2 ^ 1000"
  proof
    fix v assume "v \<in> set vec"
    with md have "moderate v" by blast
    from moderate_square [OF this] show "v * v \<le> 2 ^ 1000" by auto
  qed
  have "?S \<le> real ?m * 2 ^ 1000" using sq_hi by (rule sum_squares_le)
  also have "\<dots> \<le> 2 ^ 20 * 2 ^ 1000" using lenr by (intro mult_right_mono) simp_all
  also have "\<dots> = (2::real) ^ 1020" by simp
  finally have S_hi: "?S \<le> 2 ^ 1020" .
  from nz obtain w where w: "w \<in> set vec" "w \<noteq> 0" by blast
  with md have "moderate w" by blast
  from moderate_square [OF this] w(2) have "1 / 2 ^ 1000 \<le> w * w" by simp
  with square_le_sum [OF w(1)] have S_lo: "1 / 2 ^ 1000 \<le> ?S" by linarith
  then have S_pos: "0 < ?S" by (smt (verit) divide_pos_pos zero_less_power)
  have "\<exists>s. foldl (\<lambda>s v. num_add ar s (num_mul ar v v)) (Num 0) (map Num vec) = Num s \<and>
           (1 - unit_roundoff) ^ (0 + 2 * ?m) * (0 + ?S) \<le> s \<and> s \<le> (1 + unit_roundoff) ^ (0 + 2 * ?m) * (0 + ?S)"
    by (rule fold_bounds [OF sm md]) (use S_hi cnt2m in simp_all)
  then obtain s where s: "foldl (\<lambda>s v. num_add ar s (num_mul ar v v)) (Num 0) (map Num vec) = Num s"
    and s_lo: "(1 - unit_roundoff) ^ (2 * ?m) * ?S \<le> s" and s_hi: "s \<le> (1 + unit_roundoff) ^ (2 * ?m) * ?S"
    by auto
  have h1: "1 / 2 \<le> (1 - unit_roundoff) ^ (2 * ?m)" using cnt2m by (intro one_minus_u_pow) simp
  have h2: "(1 + unit_roundoff) ^ (2 * ?m) \<le> 2" using cnt2m by (intro one_plus_u_pow) simp
  have "1 / 2 * (1 / 2 ^ 1000) \<le> (1 - unit_roundoff) ^ (2 * ?m) * ?S"
    using h1 S_lo by (intro mult_mono) simp_all
  with s_lo have s_lo2: "1 / 2 ^ 1001 \<le> s" by simp
  have "(1 + unit_roundoff) ^ (2 * ?m) * ?S \<le> 2 * 2 ^ 1020"
    using h2 S_hi S_pos by (intro mult_mono) simp_all
  with s_hi have s_hi2: "s \<le> 2 ^ 1021" by simp
  have s_pos: "0 < s" using s_lo2 by (smt (verit) divide_pos_pos zero_less_power)
  have r_lo: "1 / 2 ^ 501 \<le> sqrt s"
  proof (rule real_le_rsqrt)
    have "(1 / 2 ^ 501)\<^sup>2 = (1::real) / 2 ^ 1002" by (simp add: power2_eq_square power_add [symmetric])
    also have "\<dots> \<le> 1 / 2 ^ 1001" by simp
    finally show "(1 / 2 ^ 501)\<^sup>2 \<le> s" using s_lo2 by linarith
  qed
  have r_hi: "sqrt s \<le> 2 ^ 511"
  proof (rule real_le_lsqrt)
    show "0 \<le> (2::real) ^ 511" by simp
    have "s \<le> (2::real) ^ 1022" using s_hi2 by simp
    also have "\<dots> = (2 ^ 511)\<^sup>2" by (simp add: power2_eq_square power_add [symmetric])
    finally show "s \<le> (2 ^ 511)\<^sup>2" .
  qed
  have rs0: "0 \<le> sqrt s" using s_pos by simp
  have "(1::real) / 2 ^ 1022 \<le> 1 / 2 ^ 501" by simp
  then have r_lo': "1 / 2 ^ 1022 \<le> sqrt s" using r_lo by (rule order_trans)
  have "(2::real) ^ 511 \<le> 2 ^ 1023" by simp
  with r_hi have r_hi': "sqrt s \<le> 2 ^ 1023" by (rule order_trans)
  have "\<bar>sqrt s\<bar> = sqrt s" using rs0 by simp
  with r_lo' r_hi' have "normal_range (sqrt s)" unfolding normal_range_def by presburger
  from sm_sqrt [OF sm _ this] s_pos obtain n where n: "num_sqrt ar (Num s) = Num n"
    and ne: "\<bar>n - sqrt s\<bar> \<le> unit_roundoff * sqrt s" by auto
  have ne': "\<bar>n - sqrt s\<bar> \<le> unit_roundoff * \<bar>sqrt s\<bar>" using ne rs0 by simp
  from rel_bounds [OF ne' rs0] have n_lo: "(1 - unit_roundoff) * sqrt s \<le> n" and n_hi: "n \<le> (1 + unit_roundoff) * sqrt s"
    by simp_all
  have "1 / 2 * (1 / 2 ^ 501) \<le> (1 - unit_roundoff) * sqrt s"
    using u_le r_lo by (intro mult_mono) simp_all
  with n_lo have n_lo2: "1 / 2 ^ 502 \<le> n" by simp
  have "(1 + unit_roundoff) * sqrt s \<le> 2 * 2 ^ 511" using u_le r_hi rs0 by (intro mult_mono) simp_all
  with n_hi have n_hi2: "n \<le> 2 ^ 512" by simp
  have n_pos: "0 < n" using n_lo2 by (smt (verit) divide_pos_pos zero_less_power)
  have dv: "l2norm_divisor ar (map Num vec) = Num n"
    using n_pos by (simp add: l2norm_divisor_def s n falsy_number_def)
  from rel_square [OF ne'] have "(1 - unit_roundoff) * (1 - unit_roundoff) * (sqrt s * sqrt s) \<le> n * n"
    and "n * n \<le> (1 + unit_roundoff) * (1 + unit_roundoff) * (sqrt s * sqrt s)" by simp_all
  then have nn_lo: "(1 - unit_roundoff) * (1 - unit_roundoff) * s \<le> n * n" and nn_hi: "n * n \<le> (1 + unit_roundoff) * (1 + unit_roundoff) * s"
    using s_pos by simp_all
  have nn_lo2: "(1 - unit_roundoff) ^ (2 * ?m + 2) * ?S \<le> n * n"
  proof -
    have "(1 - unit_roundoff) * (1 - unit_roundoff) * ((1 - unit_roundoff) ^ (2 * ?m) * ?S) \<le> (1 - unit_roundoff) * (1 - unit_roundoff) * s"
      using s_lo u_lt1 by (intro mult_left_mono) simp_all
    with nn_lo show ?thesis by (simp add: algebra_simps)
  qed
  have nn_hi2: "n * n \<le> (1 + unit_roundoff) ^ (2 * ?m + 2) * ?S"
  proof -
    have "(1 + unit_roundoff) * (1 + unit_roundoff) * s \<le> (1 + unit_roundoff) * (1 + unit_roundoff) * ((1 + unit_roundoff) ^ (2 * ?m) * ?S)"
      using s_hi u_pos by (intro mult_left_mono) simp_all
    with nn_hi show ?thesis by (simp add: algebra_simps)
  qed
  have "\<forall>v\<in>set vec. \<exists>z. num_div ar (Num v) (Num n) = Num z \<and> \<bar>z - v / n\<bar> \<le> unit_roundoff * \<bar>v / n\<bar>"
  proof
    fix v assume "v \<in> set vec"
    with md have mv: "moderate v" by blast
    have "normal_range (v / n)"
    proof (cases "v = 0")
      case True
      then show ?thesis by (simp add: normal_range_def)
    next
      case False
      with mv have vlo: "1 / 2 ^ 500 \<le> \<bar>v\<bar>" and vhi: "\<bar>v\<bar> \<le> 2 ^ 500"
        by (simp_all add: moderate_def)
      have ab: "\<bar>v / n\<bar> = \<bar>v\<bar> / n" using n_pos by simp
      have "1 / 2 ^ 500 / 2 ^ 512 \<le> \<bar>v\<bar> / n"
        using vlo n_hi2 n_pos by (intro frac_le) simp_all
      moreover have "(1::real) / 2 ^ 1022 \<le> 1 / 2 ^ 500 / 2 ^ 512" by simp
      ultimately have q_lo: "1 / 2 ^ 1022 \<le> \<bar>v\<bar> / n" by (rule order_trans [rotated])
      have "\<bar>v\<bar> / n \<le> 2 ^ 500 / (1 / 2 ^ 502)"
        using vhi n_lo2 n_pos by (intro frac_le) simp_all
      moreover have "(2::real) ^ 500 / (1 / 2 ^ 502) \<le> 2 ^ 1023" by simp
      ultimately have q_hi: "\<bar>v\<bar> / n \<le> 2 ^ 1023" by (rule order_trans)
      from q_lo q_hi ab show ?thesis unfolding normal_range_def by presburger
    qed
    from sm_div [OF sm _ this] n_pos
    show "\<exists>z. num_div ar (Num v) (Num n) = Num z \<and> \<bar>z - v / n\<bar> \<le> unit_roundoff * \<bar>v / n\<bar>" by auto
  qed
  then obtain g where g: "\<forall>v\<in>set vec. num_div ar (Num v) (Num n) = Num (g v) \<and>
      \<bar>g v - v / n\<bar> \<le> unit_roundoff * \<bar>v / n\<bar>"
    by (metis (no_types, lifting))
  let ?out = "map g vec"
  have out: "l2norm ar (map Num vec) = map Num ?out"
    using g by (simp add: l2norm_def dv)
  let ?Y = "\<Sum>z\<leftarrow>?out. z * z"
  have Y: "?Y = (\<Sum>v\<leftarrow>vec. g v * g v)" by (simp add: comp_def)
  have gn: "\<forall>v\<in>set vec. (g v * n) * (g v * n) \<le> (1 + unit_roundoff) * (1 + unit_roundoff) * (v * v) \<and>
              (1 - unit_roundoff) * (1 - unit_roundoff) * (v * v) \<le> (g v * n) * (g v * n)"
  proof
    fix v assume "v \<in> set vec"
    with g have e: "\<bar>g v - v / n\<bar> \<le> unit_roundoff * \<bar>v / n\<bar>" by blast
    have "\<bar>g v * n - v\<bar> = \<bar>g v - v / n\<bar> * n" using n_pos by (simp add: field_simps abs_mult [symmetric] del: abs_mult)
    also have "\<dots> \<le> unit_roundoff * \<bar>v / n\<bar> * n" using e n_pos by (intro mult_right_mono) simp_all
    also have "\<dots> = unit_roundoff * \<bar>v\<bar>" using n_pos by simp
    finally have "\<bar>g v * n - v\<bar> \<le> unit_roundoff * \<bar>v\<bar>" .
    from rel_square [OF this]
    show "(g v * n) * (g v * n) \<le> (1 + unit_roundoff) * (1 + unit_roundoff) * (v * v) \<and>
              (1 - unit_roundoff) * (1 - unit_roundoff) * (v * v) \<le> (g v * n) * (g v * n)" by simp
  qed
  have "(\<Sum>v\<leftarrow>vec. (g v * n) * (g v * n)) \<le> (1 + unit_roundoff) * (1 + unit_roundoff) * ?S"
    using gn by (intro scaled_squares) blast
  moreover have "(1 - unit_roundoff) * (1 - unit_roundoff) * ?S \<le> (\<Sum>v\<leftarrow>vec. (g v * n) * (g v * n))"
    using gn by (intro scaled_squares_ge) blast
  moreover have "(\<Sum>v\<leftarrow>vec. (g v * n) * (g v * n)) = ?Y * (n * n)"
  proof -
    have "(\<Sum>v\<leftarrow>vec. (g v * n) * (g v * n)) = (\<Sum>v\<leftarrow>vec. (n * n) * (g v * g v))"
      by (simp add: mult_ac)
    also have "\<dots> = (n * n) * (\<Sum>v\<leftarrow>vec. g v * g v)" by (rule sum_list_const_mult)
    finally show ?thesis unfolding Y by (simp add: mult.commute)
  qed
  ultimately have Yn_hi: "?Y * (n * n) \<le> (1 + unit_roundoff) * (1 + unit_roundoff) * ?S"
    and Yn_lo: "(1 - unit_roundoff) * (1 - unit_roundoff) * ?S \<le> ?Y * (n * n)" by simp_all
  have nn_pos: "0 < n * n" using n_pos by simp
  have Y0: "0 \<le> ?Y" by (rule squares_nonneg)
  have pm: "(1 + unit_roundoff) * (1 - unit_roundoff) \<le> 1" using u_pos by (simp add: algebra_simps)
  have pm0: "0 \<le> (1 + unit_roundoff) * (1 - unit_roundoff)" using u_pos u_lt1 by simp
  have pmk: "((1 + unit_roundoff) * (1 - unit_roundoff)) ^ j \<le> 1" for j using pm pm0 by (simp add: power_le_one)
  have ek: "?kk = (2 * ?m + 2) + 2" by simp
  have lowY: "(1 - unit_roundoff) ^ ?kk \<le> ?Y"
  proof -
    have "(1 - unit_roundoff) ^ ?kk * (n * n) \<le> (1 - unit_roundoff) ^ ?kk * ((1 + unit_roundoff) ^ (2 * ?m + 2) * ?S)"
      using nn_hi2 u_lt1 by (intro mult_left_mono) simp_all
    also have "\<dots> = ((1 + unit_roundoff) * (1 - unit_roundoff)) ^ (2 * ?m + 2) * ((1 - unit_roundoff) * (1 - unit_roundoff) * ?S)"
      unfolding ek by (rule pow_split_lower)
    also have "\<dots> \<le> 1 * ((1 - unit_roundoff) * (1 - unit_roundoff) * ?S)"
      using pmk [of "2 * ?m + 2"] S_pos u_lt1 by (intro mult_right_mono) simp_all
    also have "\<dots> \<le> ?Y * (n * n)" using Yn_lo by simp
    finally show ?thesis using nn_pos by (simp add: mult_le_cancel_right)
  qed
  have highY: "?Y * (1 - unit_roundoff) ^ ?kk \<le> 1"
  proof -
    have "?Y * (n * n) * (1 - unit_roundoff) ^ ?kk \<le> (1 + unit_roundoff) * (1 + unit_roundoff) * ?S * (1 - unit_roundoff) ^ ?kk"
      using Yn_hi u_lt1 by (intro mult_right_mono) simp_all
    also have "\<dots> = ((1 + unit_roundoff) * (1 - unit_roundoff)) ^ 2 * ((1 - unit_roundoff) ^ (2 * ?m + 2) * ?S)"
      unfolding ek by (rule pow_split_upper)
    also have "\<dots> \<le> 1 * ((1 - unit_roundoff) ^ (2 * ?m + 2) * ?S)"
      using pmk [of 2] S_pos u_lt1 by (intro mult_right_mono) simp_all
    also have "\<dots> \<le> n * n" using nn_lo2 by simp
    finally have "(?Y * (1 - unit_roundoff) ^ ?kk) * (n * n) \<le> 1 * (n * n)" by (simp add: algebra_simps)
    then show ?thesis using nn_pos by (simp only: mult_le_cancel_right)
  qed
  have "\<bar>sqrt ?Y - 1\<bar> \<le> 2 * real ?kk * unit_roundoff" by (rule final_tolerance [OF lowY highY cntk])
  also have "2 * real ?kk * unit_roundoff = real (?m + 2) / 2 ^ 51" by (simp add: unit_roundoff_def)
  finally have "\<bar>sqrt ?Y - 1\<bar> \<le> real (?m + 2) / 2 ^ 51" .
  with out show ?thesis by blast
qed

subsection \<open>IEEE 754 double arithmetic meets the standard model\<close>

lemma round_half_even_err: "\<bar>of_int (round_half_even qv) - qv\<bar> \<le> 1 / 2"
proof -
  have "of_int \<lfloor>qv\<rfloor> \<le> qv" "qv < of_int \<lfloor>qv\<rfloor> + 1" by linarith+
  then show ?thesis by (auto simp: round_half_even_def Let_def abs_le_iff)
qed

lemma round_double_zero: "round_double 0 = Num 0"
  by (simp add: round_double_def)

lemma round_double_rel:
  assumes lo: "1 / 2 ^ 1022 \<le> \<bar>r\<bar>" and hi: "\<bar>r\<bar> \<le> 2 ^ 1023"
  shows "\<exists>z. round_double r = Num z \<and> \<bar>z - r\<bar> \<le> unit_roundoff * \<bar>r\<bar>"
proof -
  have "(2::real) ^ 1023 < 2 ^ 1024 - 2 ^ 970" by simp
  with hi have no: "\<not> 2 ^ 1024 - 2 ^ 970 \<le> \<bar>r\<bar>" by linarith
  have rpos: "0 < \<bar>r\<bar>" using lo by (smt (verit) divide_pos_pos zero_less_power)
  then have r0: "r \<noteq> 0" by simp
  define L where "L = \<lfloor>log 2 \<bar>r\<bar>\<rfloor>"
  have "2 powr (- 1022) = (1::real) / 2 ^ 1022"
    by (simp add: powr_minus inverse_eq_divide)
  with lo have "2 powr (- 1022) \<le> \<bar>r\<bar>" by simp
  then have "- 1022 \<le> log 2 \<bar>r\<bar>" using rpos by (simp add: le_log_iff)
  then have L_lo: "- 1022 \<le> L" unfolding L_def by (simp add: le_floor_iff)
  then have "max (L - 52) (- 1074) = L - 52" by simp
  then have e: "double_exponent r = L - 52" by (simp only: double_exponent_def L_def)
  have "of_int L \<le> log 2 \<bar>r\<bar>" unfolding L_def by simp
  then have pL: "2 powr of_int L \<le> \<bar>r\<bar>" using rpos by (simp add: le_log_iff)
  define p :: real where "p = 2 powr of_int (L - 52)"
  have ppos: "0 < p" by (simp add: p_def)
  define z where "z = of_int (round_half_even (r / p)) * p"
  have rd: "round_double r = Num z"
    using no r0 by (simp add: round_double_def e p_def z_def Let_def)
  have "z - r = (of_int (round_half_even (r / p)) - r / p) * p"
    using ppos by (simp add: z_def field_simps)
  then have "\<bar>z - r\<bar> = \<bar>of_int (round_half_even (r / p)) - r / p\<bar> * p"
    using ppos by (simp add: abs_mult)
  also have "\<dots> \<le> 1 / 2 * p"
    using round_half_even_err [of "r / p"] ppos by (intro mult_right_mono) simp_all
  also have "1 / 2 * p = 2 powr of_int L * (1 / 2 ^ 53)"
  proof -
    have "p = 2 powr (of_int L + (- 52))" by (simp add: p_def)
    also have "\<dots> = 2 powr of_int L * 2 powr (- 52)" by (rule powr_add)
    also have "2 powr (- 52) = (1::real) / 2 ^ 52"
      by (simp add: powr_minus inverse_eq_divide)
    finally show ?thesis by simp
  qed
  also have "\<dots> \<le> \<bar>r\<bar> * (1 / 2 ^ 53)" using pL by (intro mult_right_mono) simp_all
  finally have "\<bar>z - r\<bar> \<le> unit_roundoff * \<bar>r\<bar>" by (simp add: unit_roundoff_def)
  with rd show ?thesis by blast
qed

lemma round_double_normal:
  assumes "normal_range r"
  shows "\<exists>z. round_double r = Num z \<and> \<bar>z - r\<bar> \<le> unit_roundoff * \<bar>r\<bar>"
proof (cases "r = 0")
  case True
  then show ?thesis by (simp add: round_double_zero)
next
  case False
  with assms have "1 / 2 ^ 1022 \<le> \<bar>r\<bar>" "\<bar>r\<bar> \<le> 2 ^ 1023" by (simp_all add: normal_range_def)
  then show ?thesis by (rule round_double_rel)
qed

lemma standard_model_double: "standard_model double_arith"
  unfolding standard_model_def
proof (intro conjI allI impI)
  fix x y :: real assume "normal_range (x * y)"
  from round_double_normal [OF this]
  show "\<exists>z. num_mul double_arith (Num x) (Num y) = Num z \<and> \<bar>z - x * y\<bar> \<le> unit_roundoff * \<bar>x * y\<bar>"
    by (simp add: double_arith_def)
next
  fix x y :: real assume "normal_range (x + y)"
  from round_double_normal [OF this]
  show "\<exists>z. num_add double_arith (Num x) (Num y) = Num z \<and> \<bar>z - (x + y)\<bar> \<le> unit_roundoff * \<bar>x + y\<bar>"
    by (simp add: double_arith_def)
next
  fix x y :: real assume a: "y \<noteq> 0 \<and> normal_range (x / y)"
  then have "normal_range (x / y)" by simp
  from round_double_normal [OF this] a
  show "\<exists>z. num_div double_arith (Num x) (Num y) = Num z \<and> \<bar>z - x / y\<bar> \<le> unit_roundoff * \<bar>x / y\<bar>"
    by (simp add: double_arith_def)
next
  fix x :: real assume a: "0 \<le> x \<and> normal_range (sqrt x)"
  then have "normal_range (sqrt x)" by simp
  from round_double_normal [OF this] a
  show "\<exists>z. num_sqrt double_arith (Num x) = Num z \<and> \<bar>z - sqrt x\<bar> \<le> unit_roundoff * sqrt x"
    by (simp add: double_arith_def)
qed

lemma rel_zero: "\<bar>z - 0\<bar> \<le> unit_roundoff * \<bar>0\<bar> \<Longrightarrow> z = 0" for z :: real
  by simp

lemma sm_zero:
  assumes sm: "standard_model ar"
  shows "num_mul ar (Num 0) (Num 0) = Num 0" and "num_add ar (Num 0) (Num 0) = Num 0"
    and "num_sqrt ar (Num 0) = Num 0" and "num_div ar (Num 0) (Num 1) = Num 0"
proof -
  have n0: "normal_range 0" by (simp add: normal_range_def)
  from sm_mul [OF sm, of 0 0] n0 show "num_mul ar (Num 0) (Num 0) = Num 0" by auto
  from sm_add [OF sm, of 0 0] n0 show "num_add ar (Num 0) (Num 0) = Num 0" by auto
  from sm_sqrt [OF sm, of 0] n0 show "num_sqrt ar (Num 0) = Num 0" by auto
  from sm_div [OF sm, of 1 0] n0 show "num_div ar (Num 0) (Num 1) = Num 0" by auto
qed

lemma fold_zero:
  assumes sm: "standard_model ar"
  shows "foldl (\<lambda>s v. num_add ar s (num_mul ar v v)) (Num 0) (replicate kk (Num 0)) = Num 0"
  by (induction kk) (simp_all add: sm_zero [OF sm])

lemma l2norm_zero_vector:
  assumes sm: "standard_model ar" and z: "set vec \<subseteq> {0}"
  shows "l2norm ar (map Num vec) = map Num vec"
proof -
  have v: "map Num vec = replicate (length vec) (Num 0)"
    using z by (induction vec) simp_all
  have d: "l2norm_divisor ar (replicate (length vec) (Num 0)) = Num 1"
    by (simp add: l2norm_divisor_def fold_zero [OF sm] sm_zero [OF sm] falsy_number_def)
  show ?thesis unfolding v
    by (simp add: l2norm_def d sm_zero [OF sm] map_replicate)
qed

lemma l2norm_divisor_truthy: "\<not> falsy_number (l2norm_divisor ar v)"
  by (simp add: l2norm_divisor_def Let_def falsy_number_def)

lemma l2norm_overflow_general:
  assumes big: "2 ^ 1024 - 2 ^ 970 \<le> c * c" and pos: "0 < c"
  shows "l2norm double_arith [Num c, Num c] = [Num 0, Num 0]"
proof -
  have "0 < c * c" using pos by simp
  with big have m: "round_double (c * c) = PInf" by (simp add: round_double_def)
  show ?thesis
    by (simp add: l2norm_def l2norm_divisor_def double_arith_def m falsy_number_def)
qed

lemma l2norm_overflow:
  "l2norm double_arith [Num (2 ^ 600), Num (2 ^ 600)] = [Num 0, Num 0]"
  by (rule l2norm_overflow_general) simp_all

lemma round_double_pow2:
  assumes "n \<le> 1023"
  shows "round_double (2 ^ n) = Num (2 ^ n)"
proof -
  have "(2::real) ^ n \<le> 2 ^ 1023" using assms by (intro power_increasing) simp_all
  moreover have "(2::real) ^ 1023 < 2 ^ 1024 - 2 ^ 970" by simp
  ultimately have no: "\<not> 2 ^ 1024 - 2 ^ 970 \<le> \<bar>(2::real) ^ n\<bar>" by simp
  have lg: "\<lfloor>log 2 \<bar>(2::real) ^ n\<bar>\<rfloor> = int n" by simp
  have e: "double_exponent (2 ^ n) = int n - 52"
    unfolding double_exponent_def lg by simp
  define p :: real where "p = 2 powr of_int (int n - 52)"
  have "p = 2 powr (real n - 52)" by (simp add: p_def)
  also have "\<dots> = 2 powr real n / 2 powr 52" by (rule powr_diff)
  also have "\<dots> = 2 ^ n / 2 ^ 52" by (simp add: powr_realpow)
  finally have pp: "p * 2 ^ 52 = 2 ^ n" by simp
  have ppos: "0 < p" by (simp add: p_def)
  then have qv: "2 ^ n / p = 2 ^ 52" using pp by (simp add: field_simps)
  have "round_half_even (2 ^ 52) = 2 ^ 52"
  proof -
    have "\<lfloor>(2::real) ^ 52\<rfloor> = 2 ^ 52" by (simp add: floor_eq_iff)
    then show ?thesis by (simp add: round_half_even_def Let_def)
  qed
  then have "of_int (round_half_even (2 ^ n / p)) * p = 2 ^ n"
    using pp by (simp add: qv mult.commute)
  then show ?thesis
    using no by (simp add: round_double_def e p_def Let_def)
qed

lemma round_double_small:
  "round_double 1 = Num 1" "round_double 2 = Num 2" "round_double 4 = Num 4"
  using round_double_pow2 [of 0] round_double_pow2 [of 1] round_double_pow2 [of 2] by simp_all

lemma l2norm_0_2: "l2norm double_arith [Num 0, Num 2] = [Num 0, Num 1]"
  by (simp add: l2norm_def l2norm_divisor_def double_arith_def round_double_zero
      round_double_small falsy_number_def)

section \<open>Properties of the Prompt Builder\<close>

lemma context_blocks_length: "length (context_blocks tops) = length tops"
  by (simp add: context_blocks_def)

lemma context_blocks_nth:
  "i < length tops \<Longrightarrow> context_blocks tops ! i = context_block i (tops ! i)"
  by (simp add: context_blocks_def nth_enumerate_eq)

lemma show_nat_1: "show_nat (Suc 0) = ''1''" by (simp add: show_nat.simps digit_char_def)
lemma show_nat_2: "show_nat (Suc (Suc 0)) = ''2''" by (simp add: show_nat.simps digit_char_def)

lemma digit_val_digit_char: "digit_val (digit_char d) = d mod 10"
proof -
  have "d mod 10 < length [0..<10]" by simp
  then have "map_of (zip ''0123456789'' [0..<10]) (''0123456789'' ! (d mod 10)) = Some ([0..<10] ! (d mod 10))"
    by (intro map_of_zip_nth) simp_all
  then show ?thesis by (simp add: digit_val_def digit_char_def del: upt_conv_Cons)
qed

lemma read_nat_snoc: "read_nat (s @ [c]) = 10 * read_nat s + digit_val c"
  by (simp add: read_nat_def)

lemma read_show_nat: "read_nat (show_nat n) = n"
proof (induction n rule: show_nat.induct)
  case (1 n)
  show ?case
  proof (cases "n < 10")
    case True
    then show ?thesis
      by (simp add: show_nat.simps [of n] read_nat_def digit_val_digit_char)
  next
    case False
    with 1 have "read_nat (show_nat (n div 10)) = n div 10" by simp
    with False show ?thesis
      by (simp add: show_nat.simps [of n] read_nat_snoc digit_val_digit_char)
  qed
qed

lemma show_nat_inj: "show_nat m = show_nat n \<Longrightarrow> m = n"
  by (metis read_show_nat)

text \<open>
  Claim C1, as amended. For every question and every sequence of chunks, the prompt is the
  fixed template around the question and the context, the context being the blocks of the
  chunks joined by a line feed; there is one block per chunk, in input order; the block at
  position \<open>i\<close> carries the marker \<open>[[i + 1]]\<close>, the full content, and the source line made of
  the URL (empty when \<open>source_url\<close> is \<open>null\<close>) followed, when the section is present and
  not the empty string, by a space and the section name in square brackets. Markers of
  different positions differ. So citation index \<open>i\<close> of the prompt is the chunk at position
  \<open>i - 1\<close>.
\<close>

theorem buildGroundedPrompt_numbered_blocks:
  "buildGroundedPrompt question tops =
     ''You are a helpful assistant for JioPay.\<newline>Answer the question using ONLY the context.\<newline>If the answer is not in the context, say you don't know.\<newline>\<newline>Question:\<newline>'' @
     question @ ''\<newline>\<newline>Context:\<newline>'' @ join ''\<newline>'' (context_blocks tops) @
     ''\<newline>\<newline>Instructions:\<newline>- Be concise (<= 6 sentences).\<newline>- Cite sources inline using bracket numbers like [1], [2] matching the provided SOURCES.\<newline>- Do not fabricate information.\<newline>\<newline>Final Answer:''
   \<and> length (context_blocks tops) = length tops
   \<and> (\<forall>i < length tops.
         context_blocks tops ! i =
           ''[['' @ show_nat (i + 1) @ '']] '' @ content (tops ! i) @ ''\<newline>SOURCE: '' @
           (case source_url (tops ! i) of None \<Rightarrow> '''' | Some u \<Rightarrow> u) @
           (case section_name (tops ! i) of
              None \<Rightarrow> ''''
            | Some s \<Rightarrow> if s = '''' then '''' else '' ['' @ s @ '']'') @
           ''\<newline>'')
   \<and> (\<forall>i j. show_nat (i + 1) = show_nat (j + 1) \<longrightarrow> i = j)"
proof (intro conjI allI impI)
  show "buildGroundedPrompt question tops =
     ''You are a helpful assistant for JioPay.\<newline>Answer the question using ONLY the context.\<newline>If the answer is not in the context, say you don't know.\<newline>\<newline>Question:\<newline>'' @
     question @ ''\<newline>\<newline>Context:\<newline>'' @ join ''\<newline>'' (context_blocks tops) @
     ''\<newline>\<newline>Instructions:\<newline>- Be concise (<= 6 sentences).\<newline>- Cite sources inline using bracket numbers like [1], [2] matching the provided SOURCES.\<newline>- Do not fabricate information.\<newline>\<newline>Final Answer:''"
    by (simp add: buildGroundedPrompt_def prompt_context_def)
  show "length (context_blocks tops) = length tops"
    by (rule context_blocks_length)
next
  fix i assume "i < length tops"
  then have "context_blocks tops ! i = context_block i (tops ! i)"
    by (rule context_blocks_nth)
  then show "context_blocks tops ! i =
           ''[['' @ show_nat (i + 1) @ '']] '' @ content (tops ! i) @ ''\<newline>SOURCE: '' @
           (case source_url (tops ! i) of None \<Rightarrow> '''' | Some u \<Rightarrow> u) @
           (case section_name (tops ! i) of
              None \<Rightarrow> ''''
            | Some s \<Rightarrow> if s = '''' then '''' else '' ['' @ s @ '']'') @
           ''\<newline>''"
    by (simp add: context_block_def chunk_url_def chunk_sec_def)
next
  fix i j assume "show_nat (i + 1) = show_nat (j + 1)"
  then have "i + 1 = j + 1" by (rule show_nat_inj)
  then show "i = j" by simp
qed

text \<open>
  The theorem at the question \<open>What is KYC?\<close> with the two example chunks: two blocks,
  numbered 1 and 2 in input order.
\<close>

theorem buildGroundedPrompt_numbered_blocks_witness:
  "context_blocks [kyc_chunk_1, kyc_chunk_2] =
     [''[[1]] KYC means Know Your Customer.\<newline>SOURCE: https://jiopay.com/faq [Onboarding]\<newline>'',
      ''[[2]] Upload a PAN card.\<newline>SOURCE: \<newline>'']"
proof -
  let ?tops = "[kyc_chunk_1, kyc_chunk_2]"
  note t = buildGroundedPrompt_numbered_blocks [of "''What is KYC?''" ?tops]
  from t have len: "length (context_blocks ?tops) = 2" by simp
  from t have nth: "\<forall>i < length ?tops.
         context_blocks ?tops ! i =
           ''[['' @ show_nat (i + 1) @ '']] '' @ content (?tops ! i) @ ''\<newline>SOURCE: '' @
           (case source_url (?tops ! i) of None \<Rightarrow> '''' | Some u \<Rightarrow> u) @
           (case section_name (?tops ! i) of
              None \<Rightarrow> ''''
            | Some s \<Rightarrow> if s = '''' then '''' else '' ['' @ s @ '']'') @
           ''\<newline>''" by blast
  have b0: "context_blocks ?tops ! 0 = ''[[1]] KYC means Know Your Customer.\<newline>SOURCE: https://jiopay.com/faq [Onboarding]\<newline>''"
    using nth [rule_format, of 0] by (simp add: kyc_chunk_1_def show_nat_1)
  have b1: "context_blocks ?tops ! 1 = ''[[2]] Upload a PAN card.\<newline>SOURCE: \<newline>''"
    using nth [rule_format, of 1] by (simp add: kyc_chunk_2_def show_nat_2)
  show ?thesis
    using len b0 b1 by (auto simp: list_eq_iff_nth_eq less_Suc_eq numeral_2_eq_2)
qed

text \<open>
  Claim C1 as stated fails where the section is present but empty: the second example chunk
  has the section \<open>""\<close>, its block ends with the bare source line, and the prompt holds no
  \<open>[]\<close> anywhere.
\<close>

theorem section_brackets_counterexample:
  "section_name kyc_chunk_2 = Some '''' \<and>
   context_block 1 kyc_chunk_2 = ''[[2]] Upload a PAN card.\<newline>SOURCE: \<newline>'' \<and>
   \<not> sublist ''[]'' (buildGroundedPrompt ''What is KYC?'' [kyc_chunk_1, kyc_chunk_2])"
  apply (intro conjI)
    apply (simp add: kyc_chunk_2_def)
   apply (simp add: context_block_def kyc_chunk_2_def chunk_url_def chunk_sec_def show_nat_2)
  apply code_simp
  done

text \<open>
  Claim C10. On the empty chunk sequence the builder returns the complete template: the
  question section, an empty context, the instruction list and the final-answer marker. The
  builder is a total function, so there is no failing case.
\<close>

theorem buildGroundedPrompt_empty:
  "buildGroundedPrompt question [] =
     ''You are a helpful assistant for JioPay.\<newline>Answer the question using ONLY the context.\<newline>If the answer is not in the context, say you don't know.\<newline>\<newline>Question:\<newline>'' @
     question @
     ''\<newline>\<newline>Context:\<newline>\<newline>\<newline>Instructions:\<newline>- Be concise (<= 6 sentences).\<newline>- Cite sources inline using bracket numbers like [1], [2] matching the provided SOURCES.\<newline>- Do not fabricate information.\<newline>\<newline>Final Answer:''"
  by (simp add: buildGroundedPrompt_def prompt_context_def context_blocks_def)

lemma context_block_reads:
  assumes "content c = content d" and "source_url c = source_url d"
    and "section_name c = section_name d"
  shows "context_block i c = context_block i d"
  using assms by (simp add: context_block_def chunk_url_def chunk_sec_def)

text \<open>
  The builder reads three fields of a chunk: equal questions and chunk sequences that agree
  on content, URL and section give the same prompt.
\<close>

lemma buildGroundedPrompt_reads:
  assumes "question1 = question2"
    and "map content tops1 = map content tops2"
    and "map source_url tops1 = map source_url tops2"
    and "map section_name tops1 = map section_name tops2"
  shows "buildGroundedPrompt question1 tops1 = buildGroundedPrompt question2 tops2"
proof -
  have len: "length tops1 = length tops2"
    using assms(2) by (rule map_eq_imp_length_eq)
  have "context_blocks tops1 = context_blocks tops2"
  proof (rule nth_equalityI)
    show "length (context_blocks tops1) = length (context_blocks tops2)"
      by (simp add: context_blocks_length len)
  next
    fix i assume "i < length (context_blocks tops1)"
    then have i1: "i < length tops1" by (simp add: context_blocks_length)
    then have i2: "i < length tops2" by (simp add: len)
    have "content (tops1 ! i) = content (tops2 ! i)"
      using assms(2) i1 i2 by (metis nth_map)
    moreover have "source_url (tops1 ! i) = source_url (tops2 ! i)"
      using assms(3) i1 i2 by (metis nth_map)
    moreover have "section_name (tops1 ! i) = section_name (tops2 ! i)"
      using assms(4) i1 i2 by (metis nth_map)
    ultimately have "context_block i (tops1 ! i) = context_block i (tops2 ! i)"
      by (rule context_block_reads)
    then show "context_blocks tops1 ! i = context_blocks tops2 ! i"
      by (simp add: context_blocks_nth i1 i2)
  qed
  then show ?thesis
    by (simp add: buildGroundedPrompt_def prompt_context_def assms(1))
qed

section \<open>Properties of query formatting\<close>

lemma toLowerChar_eqD: "toLowerChar x = t \<Longrightarrow> x = t \<or> (x, t) \<in> set lower_table"
  by (cases "map_of lower_table x") (auto simp: toLowerChar_def dest: map_of_SomeD)

lemma toLowerChar_b: "toLowerChar x = CHR ''b'' \<longleftrightarrow> x = CHR ''b'' \<or> x = CHR ''B''"
proof
  assume "toLowerChar x = CHR ''b''"
  then have "x = CHR ''b'' \<or> (x, CHR ''b'') \<in> set lower_table" by (rule toLowerChar_eqD)
  then show "x = CHR ''b'' \<or> x = CHR ''B''" by (simp add: lower_table_def)
next
  assume "x = CHR ''b'' \<or> x = CHR ''B''"
  then show "toLowerChar x = CHR ''b''"
    by (rule disjE) (simp_all add: toLowerChar_def lower_table_def)
qed

lemma toLowerChar_g: "toLowerChar x = CHR ''g'' \<longleftrightarrow> x = CHR ''g'' \<or> x = CHR ''G''"
proof
  assume "toLowerChar x = CHR ''g''"
  then have "x = CHR ''g'' \<or> (x, CHR ''g'') \<in> set lower_table" by (rule toLowerChar_eqD)
  then show "x = CHR ''g'' \<or> x = CHR ''G''" by (simp add: lower_table_def)
next
  assume "x = CHR ''g'' \<or> x = CHR ''G''"
  then show "toLowerChar x = CHR ''g''"
    by (rule disjE) (simp_all add: toLowerChar_def lower_table_def)
qed

lemma toLowerChar_e: "toLowerChar x = CHR ''e'' \<longleftrightarrow> x = CHR ''e'' \<or> x = CHR ''E''"
proof
  assume "toLowerChar x = CHR ''e''"
  then have "x = CHR ''e'' \<or> (x, CHR ''e'') \<in> set lower_table" by (rule toLowerChar_eqD)
  then show "x = CHR ''e'' \<or> x = CHR ''E''" by (simp add: lower_table_def)
next
  assume "x = CHR ''e'' \<or> x = CHR ''E''"
  then show "toLowerChar x = CHR ''e''"
    by (rule disjE) (simp_all add: toLowerChar_def lower_table_def)
qed

lemma toLowerChar_5: "toLowerChar x = CHR ''5'' \<longleftrightarrow> x = CHR ''5''"
proof
  assume "toLowerChar x = CHR ''5''"
  then have "x = CHR ''5'' \<or> (x, CHR ''5'') \<in> set lower_table" by (rule toLowerChar_eqD)
  then show "x = CHR ''5''" by (simp add: lower_table_def)
next
  assume "x = CHR ''5''"
  then show "toLowerChar x = CHR ''5''" by (simp add: toLowerChar_def lower_table_def)
qed

lemma includes_lower_iff:
  "includes_str (toLowerCase s) t \<longleftrightarrow>
     (\<exists>pre mid post. s = pre @ mid @ post \<and> map toLowerChar mid = t)"
  unfolding includes_str_def toLowerCase_def sublist_def
proof
  assume "\<exists>ps ss. map toLowerChar s = ps @ t @ ss"
  then obtain ps ss where "map toLowerChar s = ps @ t @ ss" by blast
  then have "\<exists>us vs. s = us @ vs \<and> ps = map toLowerChar us \<and> t @ ss = map toLowerChar vs"
    by (simp only: map_eq_append_conv)
  then obtain pre rest where s: "s = pre @ rest" and r: "map toLowerChar rest = t @ ss"
    by metis
  from r have "\<exists>us vs. rest = us @ vs \<and> t = map toLowerChar us \<and> ss = map toLowerChar vs"
    by (simp only: map_eq_append_conv)
  then obtain mid post where "rest = mid @ post" and "map toLowerChar mid = t"
    by metis
  with s show "\<exists>pre mid post. s = pre @ mid @ post \<and> map toLowerChar mid = t" by blast
next
  assume "\<exists>pre mid post. s = pre @ mid @ post \<and> map toLowerChar mid = t"
  then obtain pre mid post where "s = pre @ mid @ post" and "map toLowerChar mid = t" by blast
  then have "map toLowerChar s = map toLowerChar pre @ t @ map toLowerChar post" by simp
  then show "\<exists>ps ss. map toLowerChar s = ps @ t @ ss" by blast
qed

lemma map_eq_three:
  assumes "map f mid = [a, b, c]"
  obtains x y z where "mid = [x, y, z]" "f x = a" "f y = b" "f z = c"
proof -
  from assms obtain x r1 where m1: "mid = x # r1" "f x = a" "map f r1 = [b, c]" 
    by (cases mid) auto
  from m1(3) obtain y r2 where m2: "r1 = y # r2" "f y = b" "map f r2 = [c]"
    by (cases r1) auto
  from m2(3) obtain z where m3: "r2 = [z]" "f z = c"
    by (cases r2) auto
  show thesis using that m1 m2 m3 by simp
qed

lemma map_eq_two:
  assumes "map f mid = [a, b]"
  obtains x y where "mid = [x, y]" "f x = a" "f y = b"
proof -
  from assms obtain x r1 where m1: "mid = x # r1" "f x = a" "map f r1 = [b]"
    by (cases mid) auto
  from m1(3) obtain y where m2: "r1 = [y]" "f y = b"
    by (cases r1) auto
  show thesis using that m1 m2 by simp
qed

lemma signals_bge_iff:
  "includes_str (toLowerCase s) ''bge'' \<longleftrightarrow>
     (\<exists>pre x y z post. s = pre @ [x, y, z] @ post \<and>
        x \<in> {CHR ''b'', CHR ''B''} \<and> y \<in> {CHR ''g'', CHR ''G''} \<and> z \<in> {CHR ''e'', CHR ''E''})"
  (is "?l \<longleftrightarrow> ?r")
proof
  assume ?l
  then have "\<exists>pre mid post. s = pre @ mid @ post \<and> map toLowerChar mid = ''bge''"
    by (simp only: includes_lower_iff)
  then obtain pre mid post where s: "s = pre @ mid @ post" and m: "map toLowerChar mid = ''bge''"
    by (elim exE conjE)
  from m obtain x y z where mid: "mid = [x, y, z]"
    and x: "toLowerChar x = CHR ''b''" and y: "toLowerChar y = CHR ''g''"
    and z: "toLowerChar z = CHR ''e''"
    by (rule map_eq_three)
  have "s = pre @ [x, y, z] @ post" using s mid by simp
  moreover have "x = CHR ''b'' \<or> x = CHR ''B''" using x by (simp only: toLowerChar_b)
  then have "x \<in> {CHR ''b'', CHR ''B''}" by simp
  moreover have "y = CHR ''g'' \<or> y = CHR ''G''" using y by (simp only: toLowerChar_g)
  then have "y \<in> {CHR ''g'', CHR ''G''}" by simp
  moreover have "z = CHR ''e'' \<or> z = CHR ''E''" using z by (simp only: toLowerChar_e)
  then have "z \<in> {CHR ''e'', CHR ''E''}" by simp
  ultimately show ?r by (intro exI conjI)
next
  assume ?r
  then obtain pre x y z post where s: "s = pre @ [x, y, z] @ post"
    and x: "x \<in> {CHR ''b'', CHR ''B''}" and y: "y \<in> {CHR ''g'', CHR ''G''}"
    and z: "z \<in> {CHR ''e'', CHR ''E''}"
    by (elim exE conjE)
  have "x = CHR ''b'' \<or> x = CHR ''B''" using x by simp
  then have "toLowerChar x = CHR ''b''" by (simp only: toLowerChar_b)
  moreover have "y = CHR ''g'' \<or> y = CHR ''G''" using y by simp
  then have "toLowerChar y = CHR ''g''" by (simp only: toLowerChar_g)
  moreover have "z = CHR ''e'' \<or> z = CHR ''E''" using z by simp
  then have "toLowerChar z = CHR ''e''" by (simp only: toLowerChar_e)
  ultimately have "map toLowerChar [x, y, z] = ''bge''" by (simp only: list.map)
  with s have "\<exists>pre mid post. s = pre @ mid @ post \<and> map toLowerChar mid = ''bge''"
    by (intro exI conjI)
  then show ?l by (simp only: includes_lower_iff)
qed

lemma signals_e5_iff:
  "includes_str (toLowerCase s) ''e5'' \<longleftrightarrow>
     (\<exists>pre x post. s = pre @ [x, CHR ''5''] @ post \<and> x \<in> {CHR ''e'', CHR ''E''})"
  (is "?l \<longleftrightarrow> ?r")
proof
  assume ?l
  then have "\<exists>pre mid post. s = pre @ mid @ post \<and> map toLowerChar mid = ''e5''"
    by (simp only: includes_lower_iff)
  then obtain pre mid post where s: "s = pre @ mid @ post" and m: "map toLowerChar mid = ''e5''"
    by (elim exE conjE)
  from m obtain x y where mid: "mid = [x, y]"
    and x: "toLowerChar x = CHR ''e''" and y: "toLowerChar y = CHR ''5''"
    by (rule map_eq_two)
  have y5: "y = CHR ''5''" using y by (simp only: toLowerChar_5)
  have "s = pre @ [x, CHR ''5''] @ post" using s mid y5 by simp
  moreover have "x = CHR ''e'' \<or> x = CHR ''E''" using x by (simp only: toLowerChar_e)
  then have "x \<in> {CHR ''e'', CHR ''E''}" by simp
  ultimately show ?r by (intro exI conjI)
next
  assume ?r
  then obtain pre x post where s: "s = pre @ [x, CHR ''5''] @ post"
    and x: "x \<in> {CHR ''e'', CHR ''E''}"
    by (elim exE conjE)
  have "x = CHR ''e'' \<or> x = CHR ''E''" using x by simp
  then have "toLowerChar x = CHR ''e''" by (simp only: toLowerChar_e)
  moreover have "toLowerChar (CHR ''5'') = CHR ''5''" by (simp only: toLowerChar_5)
  ultimately have "map toLowerChar [x, CHR ''5''] = ''e5''" by (simp only: list.map)
  with s have "\<exists>pre mid post. s = pre @ mid @ post \<and> map toLowerChar mid = ''e5''"
    by (intro exI conjI)
  then show ?l by (simp only: includes_lower_iff)
qed

text \<open>
  Claim C4, as amended. An identifier signals the bge family when it holds \<open>bge\<close> in any
  mix of cases, and the e5 family when it holds \<open>e5\<close> or \<open>E5\<close>. The formatter prepends the
  instruction prefix when the identifier signals bge; prepends \<open>query: \<close> when it signals
  e5 and does not signal bge; and returns the raw query otherwise.
\<close>

theorem formatQueryForEmbedding_cases:
  "formatQueryForEmbedding qtext modelId =
     (if (\<exists>pre x y z post. modelId = pre @ [x, y, z] @ post \<and>
            x \<in> {CHR ''b'', CHR ''B''} \<and> y \<in> {CHR ''g'', CHR ''G''} \<and> z \<in> {CHR ''e'', CHR ''E''})
      then ''Represent this sentence for searching relevant passages: '' @ qtext
      else if (\<exists>pre x post. modelId = pre @ [x, CHR ''5''] @ post \<and> x \<in> {CHR ''e'', CHR ''E''})
      then ''query: '' @ qtext
      else qtext)"
  unfolding formatQueryForEmbedding_def Let_def signals_bge_iff signals_e5_iff by (rule refl)

text \<open>
  Claim C4 as stated fails on an identifier that signals both families: the bge test comes
  first, so the e5 prefix is not prepended.
\<close>

theorem e5_prefix_counterexample:
  "includes_str (toLowerCase ''intfloat/e5-distilled-from-BGE'') ''e5'' \<and>
   formatQueryForEmbedding ''What is KYC?'' ''intfloat/e5-distilled-from-BGE'' =
     ''Represent this sentence for searching relevant passages: What is KYC?'' \<and>
   formatQueryForEmbedding ''What is KYC?'' ''intfloat/e5-distilled-from-BGE'' \<noteq>
     ''query: What is KYC?''"
  by code_simp

section \<open>Properties of the Embedding Client\<close>

lemma fallback_status_classify:
  "fallback_status (error_status err) \<longleftrightarrow> classify err \<noteq> OtherFailure"
  by (simp add: fallback_status_def classify_def split: option.splits)

lemma authHeaders_absent:
  "VITE_HF_TOKEN e = None \<or> VITE_HF_TOKEN e = Some '''' \<Longrightarrow> authHeaders e = Inl missing_token_error"
  by (auto simp: authHeaders_def)

lemma authHeaders_Inl: "authHeaders e = Inl err \<Longrightarrow> err = missing_token_error"
  by (auto simp: authHeaders_def split: option.splits if_splits)

lemma missing_token_no_status: "error_status missing_token_error = None"
  by (simp add: error_status_def missing_token_error_def)

lemma response_vec_no_status: "response_vec d = Inl err \<Longrightarrow> error_status err = None"
  by (cases d rule: response_vec.cases) (auto simp: error_status_def)

lemma embedWithModel_no_token:
  "authHeaders e = Inl err \<Longrightarrow> embedWithModel e modelId input w = (Inl missing_token_error, w)"
  by (auto simp: embedWithModel_def dest: authHeaders_Inl)

lemma embedWithModel_posts:
  "posts (snd (embedWithModel e modelId input w)) =
     posts w @ (case authHeaders e of
                  Inl err \<Rightarrow> []
                | Inr h \<Rightarrow> [\<lparr>call_model = modelId, call_inputs = input, call_authorization = h\<rparr>])"
  by (simp add: embedWithModel_def Let_def split: sum.splits)


lemma embedWithModel_Inr:
  "fst (embedWithModel e modelId input w) = Inr out \<Longrightarrow> \<exists>raw. out = l2norm (arith e) raw"
  by (auto simp: embedWithModel_def Let_def split: sum.splits)

lemma embedWithModel_eligible_token:
  assumes "fst (embedWithModel e modelId input w) = Inl err" and "fallback_status (error_status err)"
  shows "\<exists>h. authHeaders e = Inr h"
proof (cases "authHeaders e")
  case (Inl x)
  then have "embedWithModel e modelId input w = (Inl missing_token_error, w)"
    by (rule embedWithModel_no_token)
  with assms(1) have "err = missing_token_error" by simp
  with assms(2) show ?thesis by (simp add: missing_token_no_status fallback_status_def)
next
  case (Inr h)
  then show ?thesis by blast
qed

lemma console_warn_frame:
  "posts (console_warn line w) = posts w" "rpcs (console_warn line w) = rpcs w"
  "gens (console_warn line w) = gens w" "ticks (console_warn line w) = ticks w"
  by (simp_all add: console_warn_def)

lemma console_error_frame:
  "posts (console_error l d w) = posts w" "rpcs (console_error l d w) = rpcs w"
  "gens (console_error l d w) = gens w" "ticks (console_error l d w) = ticks w"
  by (simp_all add: console_error_def)

lemma embedQuery_unfold:
  "embedQuery e query w =
     (let first = embedWithModel e (EMB_PRIMARY e) (formatQueryForEmbedding query (EMB_PRIMARY e)) w
      in case fst first of
           Inr vec \<Rightarrow> first
         | Inl err \<Rightarrow>
             if fallback_status (error_status err)
             then embedWithModel e (EMB_FALLBACK e) (formatQueryForEmbedding query (EMB_FALLBACK e))
                    (console_warn (fallback_warning e (error_status err)) (snd first))
             else (Inl err, console_error ''HF embed error:'' (error_detail err) (snd first)))"
  by (simp add: embedQuery_def Let_def split: prod.splits sum.splits)


lemma embedQuery_Inr:
  "fst (embedQuery e query w) = Inr out \<Longrightarrow> \<exists>raw. out = l2norm (arith e) raw"
  by (auto simp: embedQuery_unfold Let_def split: sum.splits if_splits dest: embedWithModel_Inr)

subsection \<open>The example environments, evaluated\<close>

lemma demo_arith:
  "arith demo_env = double_arith"
  "arith store_up_env = double_arith"
  "arith gen_down_env = double_arith"
  by (simp_all add: demo_env_def store_up_env_def gen_down_env_def)

lemma format_demo_primary:
  "formatQueryForEmbedding ''What is KYC?'' ''BAAI/bge-small-en-v1.5'' =
     ''Represent this sentence for searching relevant passages: What is KYC?''"
  by code_simp

lemma format_demo_fallback:
  "formatQueryForEmbedding ''What is KYC?'' ''sentence-transformers/all-MiniLM-L6-v2'' =
     ''What is KYC?''"
  by code_simp

lemma show_nat_429: "show_nat 429 = ''429''"
  by code_simp

lemma trim_demo: "trim (CHR 0xA0 # '' What is KYC? '') = ''What is KYC?''"
  by (simp add: trim_def js_space_def)

lemma demo_models:
  "EMB_PRIMARY demo_env = ''BAAI/bge-small-en-v1.5''"
  "EMB_FALLBACK demo_env = ''sentence-transformers/all-MiniLM-L6-v2''"
  "EMB_PRIMARY store_up_env = ''BAAI/bge-small-en-v1.5''"
  "EMB_FALLBACK store_up_env = ''sentence-transformers/all-MiniLM-L6-v2''"
  "EMB_PRIMARY gen_down_env = ''BAAI/bge-small-en-v1.5''"
  "EMB_FALLBACK gen_down_env = ''sentence-transformers/all-MiniLM-L6-v2''"
  "EMB_PRIMARY no_token_env = ''BAAI/bge-small-en-v1.5''"
  "EMB_FALLBACK no_token_env = ''sentence-transformers/all-MiniLM-L6-v2''"
  by (simp_all add: EMB_PRIMARY_def EMB_FALLBACK_def or_default_def demo_env_def
        store_up_env_def gen_down_env_def no_token_env_def)

lemma demo_authHeaders:
  "authHeaders demo_env = Inr ''Bearer hf_demo''"
  "authHeaders store_up_env = Inr ''Bearer hf_demo''"
  "authHeaders gen_down_env = Inr ''Bearer hf_demo''"
  by (simp_all add: authHeaders_def demo_env_def store_up_env_def gen_down_env_def)

lemma demo_hf_post:
  "hf_post demo_env hist c =
     (if call_model c = ''BAAI/bge-small-en-v1.5''
      then Inl rate_limited else Inr (Batch [[Num 0, Num 2]]))"
  "hf_post store_up_env hist c =
     (if call_model c = ''BAAI/bge-small-en-v1.5''
      then Inl rate_limited else Inr (Batch [[Num 0, Num 2]]))"
  "hf_post gen_down_env hist c =
     (if call_model c = ''BAAI/bge-small-en-v1.5''
      then Inl rate_limited else Inr (Batch [[Num 0, Num 2]]))"
  by (simp_all add: demo_env_def store_up_env_def gen_down_env_def)

lemma rate_limited_status: "error_status rate_limited = Some 429"
  by (simp add: error_status_def rate_limited_def)

lemma demo_embedQuery:
  "embedQuery demo_env ''What is KYC?'' w =
     (Inr [Num 0, Num 1],
      w\<lparr>posts := posts w @ demo_posts, console := console w @ [Warn demo_warning]\<rparr>)"
  "embedQuery store_up_env ''What is KYC?'' w =
     (Inr [Num 0, Num 1],
      w\<lparr>posts := posts w @ demo_posts, console := console w @ [Warn demo_warning]\<rparr>)"
  "embedQuery gen_down_env ''What is KYC?'' w =
     (Inr [Num 0, Num 1],
      w\<lparr>posts := posts w @ demo_posts, console := console w @ [Warn demo_warning]\<rparr>)"
  by (simp_all add: embedQuery_def embedWithModel_def demo_models demo_authHeaders demo_hf_post
      format_demo_primary format_demo_fallback rate_limited_status fallback_status_def
      fallback_warning_def show_nat_429 console_warn_def demo_arith l2norm_0_2 demo_posts_def
      demo_warning_def)

subsection \<open>Missing credential\<close>

text \<open>
  Claim C7. When the access token is unset or empty, every embedding call, whatever the
  model and the input, fails with the plain error \<open>Missing VITE_HF_TOKEN in .env\<close>, which has
  no HTTP response, and leaves the world as it was: nothing has been sent.
\<close>

theorem embedWithModel_missing_credential:
  assumes "VITE_HF_TOKEN e = None \<or> VITE_HF_TOKEN e = Some ''''"
  shows "embedWithModel e modelId input w =
           (Inl \<lparr>err_name = ''Error'', err_message = ''Missing VITE_HF_TOKEN in .env'',
                 response = None\<rparr>, w)"
proof -
  from assms have "authHeaders e = Inl missing_token_error" by (rule authHeaders_absent)
  then have "embedWithModel e modelId input w = (Inl missing_token_error, w)"
    by (rule embedWithModel_no_token)
  then show ?thesis by (simp add: missing_token_error_def)
qed

text \<open>
  The theorem in the example environment without a token.
\<close>

theorem embedWithModel_missing_credential_witness:
  "VITE_HF_TOKEN no_token_env = None \<and>
   embedWithModel no_token_env ''BAAI/bge-small-en-v1.5'' ''What is KYC?'' world0 =
     (Inl \<lparr>err_name = ''Error'', err_message = ''Missing VITE_HF_TOKEN in .env'',
           response = None\<rparr>, world0)"
proof -
  have h: "VITE_HF_TOKEN no_token_env = None" by (simp add: no_token_env_def demo_env_def)
  from embedWithModel_missing_credential [OF disjI1 [OF h]] h show ?thesis by blast
qed

text \<open>
  Claim C9. When the access token is unset or empty, \<open>embedQuery\<close> returns the configuration
  error of the first attempt, having logged it, and sends nothing to either provider: the
  error has no HTTP status, so its class is none of the four that allow the fallback.
\<close>

theorem embedQuery_missing_credential:
  assumes "VITE_HF_TOKEN e = None \<or> VITE_HF_TOKEN e = Some ''''"
  shows "embedQuery e query w =
           (Inl missing_token_error,
            console_error ''HF embed error:'' ''Missing VITE_HF_TOKEN in .env'' w)
         \<and> posts (snd (embedQuery e query w)) = posts w
         \<and> error_status missing_token_error = None
         \<and> classify missing_token_error = OtherFailure"
proof -
  from assms have "authHeaders e = Inl missing_token_error" by (rule authHeaders_absent)
  then have first: "\<And>m i. embedWithModel e m i w = (Inl missing_token_error, w)"
    by (rule embedWithModel_no_token)
  have st: "error_status missing_token_error = None" by (rule missing_token_no_status)
  have det: "error_detail missing_token_error = ''Missing VITE_HF_TOKEN in .env''"
    by (simp add: error_detail_def missing_token_error_def)
  have eq: "embedQuery e query w =
           (Inl missing_token_error,
            console_error ''HF embed error:'' ''Missing VITE_HF_TOKEN in .env'' w)"
    by (simp add: embedQuery_unfold first st fallback_status_def det)
  have "classify missing_token_error = OtherFailure"
    by (simp add: classify_def st)
  with eq st show ?thesis by (simp add: console_error_frame)
qed

text \<open>
  The theorem in the example environment without a token.
\<close>

theorem embedQuery_missing_credential_witness:
  "VITE_HF_TOKEN no_token_env = None \<and>
   fst (embedQuery no_token_env ''What is KYC?'' world0) =
     Inl \<lparr>err_name = ''Error'', err_message = ''Missing VITE_HF_TOKEN in .env'',
          response = None\<rparr> \<and>
   posts (snd (embedQuery no_token_env ''What is KYC?'' world0)) = []"
proof -
  have h: "VITE_HF_TOKEN no_token_env = None" by (simp add: no_token_env_def demo_env_def)
  from embedQuery_missing_credential [OF disjI1 [OF h], of "''What is KYC?''" world0] h
  show ?thesis by (simp add: missing_token_error_def world0_def console_error_def)
qed

subsection \<open>Fallback policy\<close>

text \<open>
  Claim C2. The first attempt goes to the primary model with the query formatted for it. If
  it succeeds, its vector is the result. If it fails with the class payment required,
  forbidden, not found or rate limited, the result is that of one attempt with the fallback
  model, the raw query formatted anew for the fallback identifier, and a failure of that
  attempt is the result as it is. Any other failure of the first attempt is the result. The
  requests sent are: none without a token; otherwise the primary request, followed by the
  fallback request exactly when the first attempt failed with one of the four classes.
\<close>

theorem embedQuery_fallback_policy:
  "(let P = EMB_PRIMARY e; F = EMB_FALLBACK e;
        first = embedWithModel e P (formatQueryForEmbedding query P) w
    in fst (embedQuery e query w) =
         (case fst first of
            Inr vec \<Rightarrow> Inr vec
          | Inl err \<Rightarrow>
              if classify err \<in> {PaymentRequired, Forbidden, NotFound, RateLimited}
              then fst (embedWithModel e F (formatQueryForEmbedding query F)
                          (console_warn (fallback_warning e (error_status err)) (snd first)))
              else Inl err)
       \<and> posts (snd (embedQuery e query w)) =
           posts w @
           (case authHeaders e of
              Inl err \<Rightarrow> []
            | Inr h \<Rightarrow>
                \<lparr>call_model = P, call_inputs = formatQueryForEmbedding query P,
                  call_authorization = h\<rparr> #
                (case fst first of
                   Inr vec \<Rightarrow> []
                 | Inl err \<Rightarrow>
                     if classify err \<in> {PaymentRequired, Forbidden, NotFound, RateLimited}
                     then [\<lparr>call_model = F, call_inputs = formatQueryForEmbedding query F,
                             call_authorization = h\<rparr>]
                     else [])))"
proof -
  define P where "P = EMB_PRIMARY e"
  define F where "F = EMB_FALLBACK e"
  define first where "first = embedWithModel e P (formatQueryForEmbedding query P) w"
  have elig: "\<And>err. classify err \<in> {PaymentRequired, Forbidden, NotFound, RateLimited}
                \<longleftrightarrow> fallback_status (error_status err)"
  proof -
    fix err
    show "classify err \<in> {PaymentRequired, Forbidden, NotFound, RateLimited}
                \<longleftrightarrow> fallback_status (error_status err)"
      by (cases "classify err") (simp_all add: fallback_status_classify)
  qed
  have unf: "embedQuery e query w =
     (case fst first of
           Inr vec \<Rightarrow> first
         | Inl err \<Rightarrow>
             if fallback_status (error_status err)
             then embedWithModel e F (formatQueryForEmbedding query F)
                    (console_warn (fallback_warning e (error_status err)) (snd first))
             else (Inl err, console_error ''HF embed error:'' (error_detail err) (snd first)))"
    unfolding first_def P_def F_def embedQuery_unfold Let_def by (rule refl)
  have res: "fst (embedQuery e query w) =
         (case fst first of
            Inr vec \<Rightarrow> Inr vec
          | Inl err \<Rightarrow>
              if classify err \<in> {PaymentRequired, Forbidden, NotFound, RateLimited}
              then fst (embedWithModel e F (formatQueryForEmbedding query F)
                          (console_warn (fallback_warning e (error_status err)) (snd first)))
              else Inl err)"
    unfolding unf elig by (simp split: sum.splits)
  have p1: "posts (snd first) =
     posts w @ (case authHeaders e of
                  Inl err \<Rightarrow> []
                | Inr h \<Rightarrow> [\<lparr>call_model = P, call_inputs = formatQueryForEmbedding query P,
                              call_authorization = h\<rparr>])"
    unfolding first_def by (rule embedWithModel_posts)
  have log: "posts (snd (embedQuery e query w)) =
           posts w @
           (case authHeaders e of
              Inl err \<Rightarrow> []
            | Inr h \<Rightarrow>
                \<lparr>call_model = P, call_inputs = formatQueryForEmbedding query P,
                  call_authorization = h\<rparr> #
                (case fst first of
                   Inr vec \<Rightarrow> []
                 | Inl err \<Rightarrow>
                     if classify err \<in> {PaymentRequired, Forbidden, NotFound, RateLimited}
                     then [\<lparr>call_model = F, call_inputs = formatQueryForEmbedding query F,
                             call_authorization = h\<rparr>]
                     else []))"
  proof (cases "fst first")
    case (Inr vec)
    then show ?thesis unfolding unf by (simp add: p1 split: sum.splits)
  next
    case (Inl err)
    show ?thesis
    proof (cases "fallback_status (error_status err)")
      case True
      with Inl obtain h where h: "authHeaders e = Inr h"
        unfolding first_def using embedWithModel_eligible_token by blast
      show ?thesis
        unfolding unf elig using Inl True h
        by (simp add: embedWithModel_posts console_warn_frame p1)
    next
      case False
      then show ?thesis
        unfolding unf elig using Inl
        by (simp add: console_error_frame p1 split: sum.splits)
    qed
  qed
  from res log show ?thesis
    unfolding Let_def P_def [symmetric] F_def [symmetric] first_def [symmetric] by (rule conjI)
qed

text \<open>
  The theorem in the example environment: the primary model is rate limited, the fallback
  answers, and exactly two requests are sent.
\<close>

theorem embedQuery_fallback_policy_witness:
  "fst (embedQuery demo_env ''What is KYC?'' world0) = Inr [Num 0, Num 1] \<and>
   posts (snd (embedQuery demo_env ''What is KYC?'' world0)) =
     [\<lparr>call_model = ''BAAI/bge-small-en-v1.5'',
       call_inputs = ''Represent this sentence for searching relevant passages: What is KYC?'',
       call_authorization = ''Bearer hf_demo''\<rparr>,
      \<lparr>call_model = ''sentence-transformers/all-MiniLM-L6-v2'',
       call_inputs = ''What is KYC?'', call_authorization = ''Bearer hf_demo''\<rparr>]"
proof -
  have first: "embedWithModel demo_env ''BAAI/bge-small-en-v1.5''
                 ''Represent this sentence for searching relevant passages: What is KYC?'' world0 =
               (Inl rate_limited, world0\<lparr>posts := posts world0 @ [\<lparr>call_model = ''BAAI/bge-small-en-v1.5'',
       call_inputs = ''Represent this sentence for searching relevant passages: What is KYC?'',
       call_authorization = ''Bearer hf_demo''\<rparr>]\<rparr>)"
    by (simp add: embedWithModel_def demo_authHeaders demo_hf_post)
  have p0: "posts world0 = []" by (simp add: world0_def)
  have cls: "classify rate_limited = RateLimited"
    by (simp add: classify_def rate_limited_status)
  have second: "\<And>w. fst (embedWithModel demo_env ''sentence-transformers/all-MiniLM-L6-v2''
                 ''What is KYC?'' w) = Inr [Num 0, Num 1]"
    by (simp add: embedWithModel_def demo_authHeaders demo_hf_post demo_arith l2norm_0_2)
  show ?thesis
    using embedQuery_fallback_policy [of demo_env "''What is KYC?''" world0]
    by (simp add: Let_def demo_models format_demo_primary format_demo_fallback first cls second
        demo_authHeaders p0)
qed

subsection \<open>Normalisation\<close>

text \<open>
  Claim C3, as amended. Whatever the arithmetic, the divisor of \<open>l2norm\<close> is never zero or
  NaN, so no division by zero takes place, and every vector that \<open>embedQuery\<close> returns, from
  the primary or the fallback model, is an output of \<open>l2norm\<close>. In an arithmetic that meets
  the standard model of rounding error, as IEEE 754 double arithmetic does, a vector of
  zeros is returned as it is, and a vector of at most \<open>2^20\<close> components, each zero or of
  magnitude between \<open>2^-500\<close> and \<open>2^500\<close> and not all zero, is mapped to a vector of finite
  doubles whose Euclidean norm differs from 1 by at most \<open>(n + 2) / 2^51\<close>, \<open>n\<close> being the
  number of components.
\<close>

theorem l2norm_normalizes:
  "\<not> falsy_number (l2norm_divisor ar v)
   \<and> (standard_model ar \<and> set zs \<subseteq> {0} \<longrightarrow> l2norm ar (map Num zs) = map Num zs)
   \<and> (standard_model ar \<and>
        (\<forall>x\<in>set vec. x = 0 \<or> 1 / 2 ^ 500 \<le> \<bar>x\<bar> \<and> \<bar>x\<bar> \<le> 2 ^ 500) \<and>
        (\<exists>x\<in>set vec. x \<noteq> 0) \<and> length vec \<le> 2 ^ 20 \<longrightarrow>
        (\<exists>out. l2norm ar (map Num vec) = map Num out \<and>
           \<bar>sqrt (\<Sum>z\<leftarrow>out. z * z) - 1\<bar> \<le> real (length vec + 2) / 2 ^ 51))
   \<and> (fst (embedQuery e query w) = Inr res \<longrightarrow> (\<exists>raw. res = l2norm (arith e) raw))
   \<and> standard_model double_arith"
proof (intro conjI impI)
  show "\<not> falsy_number (l2norm_divisor ar v)" by (rule l2norm_divisor_truthy)
next
  assume "standard_model ar \<and> set zs \<subseteq> {0}"
  then show "l2norm ar (map Num zs) = map Num zs" by (simp add: l2norm_zero_vector)
next
  assume a: "standard_model ar \<and>
        (\<forall>x\<in>set vec. x = 0 \<or> 1 / 2 ^ 500 \<le> \<bar>x\<bar> \<and> \<bar>x\<bar> \<le> 2 ^ 500) \<and>
        (\<exists>x\<in>set vec. x \<noteq> 0) \<and> length vec \<le> 2 ^ 20"
  then have sm: "standard_model ar" and nz: "\<exists>x\<in>set vec. x \<noteq> 0"
    and len: "length vec \<le> 2 ^ 20" by simp_all
  from a have md: "\<forall>x\<in>set vec. moderate x" unfolding moderate_def by blast
  show "\<exists>out. l2norm ar (map Num vec) = map Num out \<and>
           \<bar>sqrt (\<Sum>z\<leftarrow>out. z * z) - 1\<bar> \<le> real (length vec + 2) / 2 ^ 51"
    by (rule l2norm_unit_tolerance [OF sm md nz len])
next
  assume "fst (embedQuery e query w) = Inr res"
  then show "\<exists>raw. res = l2norm (arith e) raw" by (rule embedQuery_Inr)
next
  show "standard_model double_arith" by (rule standard_model_double)
qed

text \<open>
  The theorem in double arithmetic at the vectors \<open>[3, 4]\<close> and \<open>[0, 0]\<close>, and in the example
  environment, where the fallback model answers \<open>[[0, 2]]\<close>.
\<close>

theorem l2norm_normalizes_witness:
  "(\<exists>out. l2norm double_arith [Num 3, Num 4] = map Num out \<and>
      \<bar>sqrt (\<Sum>z\<leftarrow>out. z * z) - 1\<bar> \<le> 4 / 2 ^ 51)
   \<and> l2norm double_arith [Num 0, Num 0] = [Num 0, Num 0]
   \<and> fst (embedQuery demo_env ''What is KYC?'' world0) = Inr [Num 0, Num 1]
   \<and> (\<exists>raw. [Num 0, Num 1] = l2norm double_arith raw)"
proof -
  note t = l2norm_normalizes [where ar = double_arith and zs = "[0, 0]" and vec = "[3, 4]"
      and e = demo_env and query = "''What is KYC?''" and w = world0 and res = "[Num 0, Num 1]"]
  from t have sm: "standard_model double_arith" by blast
  have zs: "set [0, 0 :: real] \<subseteq> {0}" by simp
  have md: "\<forall>x\<in>set [3, 4 :: real]. x = 0 \<or> 1 / 2 ^ 500 \<le> \<bar>x\<bar> \<and> \<bar>x\<bar> \<le> 2 ^ 500" by simp
  have nz: "\<exists>x\<in>set [3, 4 :: real]. x \<noteq> 0" by simp
  have len: "length [3, 4 :: real] \<le> 2 ^ 20" by simp
  have res: "fst (embedQuery demo_env ''What is KYC?'' world0) = Inr [Num 0, Num 1]"
    by (simp add: demo_embedQuery)
  from t sm zs have "l2norm double_arith (map Num [0, 0]) = map Num [0, 0]" by blast
  then have c2: "l2norm double_arith [Num 0, Num 0] = [Num 0, Num 0]" by simp
  from t sm md nz len
  have "\<exists>out. l2norm double_arith (map Num [3, 4]) = map Num out \<and>
           \<bar>sqrt (\<Sum>z\<leftarrow>out. z * z) - 1\<bar> \<le> real (length [3, 4 :: real] + 2) / 2 ^ 51"
    by blast
  then have c1: "\<exists>out. l2norm double_arith [Num 3, Num 4] = map Num out \<and>
      \<bar>sqrt (\<Sum>z\<leftarrow>out. z * z) - 1\<bar> \<le> 4 / 2 ^ 51" by simp
  from t res have "\<exists>raw. [Num 0, Num 1] = l2norm (arith demo_env) raw" by blast
  then have c4: "\<exists>raw. [Num 0, Num 1] = l2norm double_arith raw" by (simp add: demo_arith)
  from c1 c2 res c4 show ?thesis by blast
qed

text \<open>
  Claim C3 as stated fails where the squares overflow: both components of the vector
  \<open>[2^600, 2^600]\<close> are finite doubles and not zero, each square is infinite in double
  arithmetic, so the divisor is infinite and the result is the zero vector, of norm 0.
\<close>

theorem l2norm_overflow_counterexample:
  "l2norm double_arith [Num (2 ^ 600), Num (2 ^ 600)] = [Num 0, Num 0] \<and> (2 :: real) ^ 600 \<noteq> 0"
  by (rule conjI [OF l2norm_overflow]) simp

section \<open>Properties of Similarity Search\<close>




section \<open>Properties of the orchestration\<close>

lemma demo_search_fails:
  "fst (semanticSearch demo_env ''What is KYC?'' kopt w) =
     Inl \<lparr>err_name = ''Error'', err_message = ''connection reset'', response = None\<rparr>"
  by (simp add: semanticSearch_def Let_def performance_now_def demo_embedQuery plain_error_def
      split: prod.splits)
     (simp add: demo_env_def plain_error_def)

lemma gen_down_search:
  "\<exists>sr wa. semanticSearch gen_down_env ''What is KYC?'' kopt w = (Inr sr, wa)"
  by (simp add: semanticSearch_def Let_def demo_embedQuery
      split: prod.splits)
     (simp add: gen_down_env_def store_up_env_def demo_env_def performance_now_def)

lemma gen_down_generate:
  "fst (generateAnswer gen_down_env prompt w) =
     Inl \<lparr>err_name = ''Error'', err_message = '''', response = None\<rparr>"
  by (simp add: generateAnswer_def Let_def gen_down_env_def)

text \<open>A question that holds white space only, a no-break space included, is not accepted.\<close>

lemma ask_blank_question:
  "q st = [CHR 0x20, CHR 0xA0, CHR 0x09] \<Longrightarrow> ask e st w = (st, w)"
  by (simp add: ask_def trim_def js_space_def)

text \<open>
  Claim C6. When a request is accepted (the trimmed question is not empty and no request is
  in flight) and retrieval or generation fails with an error, the conversation grows by the
  user turn and by an assistant turn whose text is \<open>Sorry, something went wrong:\<close>, a line
  feed and the message of the error, or the name of the error when its message is empty;
  the assistant turn has no citations.
\<close>

theorem ask_failure_turn:
  assumes "trim (q st) \<noteq> ''''" and "\<not> busy st"
    and "fst (semanticSearch e (trim (q st)) (Some (count_k st)) w) = Inl err \<or>
         (\<exists>sr wa. semanticSearch e (trim (q st)) (Some (count_k st)) w = (Inr sr, wa) \<and>
            fst (generateAnswer e (buildGroundedPrompt (trim (q st)) (chunks sr))
                   (snd (performance_now e wa))) = Inl err)"
  shows "messages (fst (ask e st w)) =
           messages st @
           [\<lparr>role = User, msg_text = trim (q st), citations = None\<rparr>,
            \<lparr>role = Assistant,
             msg_text = ''Sorry, something went wrong:\<newline>'' @
               (if err_message err = '''' then err_name err else err_message err),
             citations = None\<rparr>]"
proof -
  define st1 where
    "st1 = st\<lparr>busy := True, messages := messages st @
              [\<lparr>role = User, msg_text = trim (q st), citations = None\<rparr>]\<rparr>"
  have caught: "\<exists>sc wc. ask_try e (trim (q st)) st1 w = (Some err, sc, wc) \<and>
                  messages sc = messages st1"
    using assms(3)
  proof
    assume "fst (semanticSearch e (trim (q st)) (Some (count_k st)) w) = Inl err"
    then show ?thesis
      by (auto simp: ask_try_def st1_def split: prod.splits sum.splits)
  next
    assume "\<exists>sr wa. semanticSearch e (trim (q st)) (Some (count_k st)) w = (Inr sr, wa) \<and>
            fst (generateAnswer e (buildGroundedPrompt (trim (q st)) (chunks sr))
                   (snd (performance_now e wa))) = Inl err"
    then obtain sr wa where
      s: "semanticSearch e (trim (q st)) (Some (count_k st)) w = (Inr sr, wa)" and
      g: "fst (generateAnswer e (buildGroundedPrompt (trim (q st)) (chunks sr))
                   (snd (performance_now e wa))) = Inl err"
      by blast
    then show ?thesis
      by (auto simp: ask_try_def st1_def Let_def split: prod.splits sum.splits)
  qed
  then obtain sc wc where t: "ask_try e (trim (q st)) st1 w = (Some err, sc, wc)"
    and m: "messages sc = messages st1" by blast
  have "fst (ask e st w) = sc\<lparr>messages := messages sc @ [failure_turn err], busy := False, q := ''''\<rparr>"
    using assms(1,2) t by (simp add: ask_def Let_def st1_def)
  then show ?thesis
    by (simp add: m st1_def failure_turn_def surfaced_def error_toString_def)
qed

text \<open>
  The theorem with the store down, where retrieval fails and the assistant turn shows
  \<open>connection reset\<close>, and with the generation service down, where the error has an empty
  message and the assistant turn shows its name \<open>Error\<close>. The question starts with a
  no-break space, which \<open>trim\<close> strips.
\<close>

theorem ask_failure_turn_witness:
  "trim (q chat0) \<noteq> '''' \<and> \<not> busy chat0 \<and>
   messages (fst (ask demo_env chat0 world0)) =
     [\<lparr>role = User, msg_text = ''What is KYC?'', citations = None\<rparr>,
      \<lparr>role = Assistant, msg_text = ''Sorry, something went wrong:\<newline>connection reset'',
       citations = None\<rparr>] \<and>
   messages (fst (ask gen_down_env chat0 world0)) =
     [\<lparr>role = User, msg_text = ''What is KYC?'', citations = None\<rparr>,
      \<lparr>role = Assistant, msg_text = ''Sorry, something went wrong:\<newline>Error'',
       citations = None\<rparr>]"
proof -
  have t: "trim (q chat0) = ''What is KYC?''" by (simp add: chat0_def trim_demo)
  then have g1: "trim (q chat0) \<noteq> ''''" by simp
  have g2: "\<not> busy chat0" by (simp add: chat0_def)
  have f: "fst (semanticSearch demo_env (trim (q chat0)) (Some (count_k chat0)) world0) =
     Inl \<lparr>err_name = ''Error'', err_message = ''connection reset'', response = None\<rparr>"
    unfolding t by (rule demo_search_fails)
  from gen_down_search [of "Some (count_k chat0)" world0] obtain sr wa where
    s: "semanticSearch gen_down_env (trim (q chat0)) (Some (count_k chat0)) world0 = (Inr sr, wa)"
    unfolding t by blast
  have g: "fst (generateAnswer gen_down_env (buildGroundedPrompt (trim (q chat0)) (chunks sr))
                   (snd (performance_now gen_down_env wa))) =
     Inl \<lparr>err_name = ''Error'', err_message = '''', response = None\<rparr>"
    by (rule gen_down_generate)
  have h: "\<exists>sr wa. semanticSearch gen_down_env (trim (q chat0)) (Some (count_k chat0)) world0 =
              (Inr sr, wa) \<and>
            fst (generateAnswer gen_down_env (buildGroundedPrompt (trim (q chat0)) (chunks sr))
                   (snd (performance_now gen_down_env wa))) =
            Inl \<lparr>err_name = ''Error'', err_message = '''', response = None\<rparr>"
    using s g by blast
  have a: "messages (fst (ask demo_env chat0 world0)) =
     [\<lparr>role = User, msg_text = ''What is KYC?'', citations = None\<rparr>,
      \<lparr>role = Assistant, msg_text = ''Sorry, something went wrong:\<newline>connection reset'',
       citations = None\<rparr>]"
    using ask_failure_turn [OF g1 g2 disjI1 [OF f]] by (simp add: chat0_def trim_demo)
  have b: "messages (fst (ask gen_down_env chat0 world0)) =
     [\<lparr>role = User, msg_text = ''What is KYC?'', citations = None\<rparr>,
      \<lparr>role = Assistant, msg_text = ''Sorry, something went wrong:\<newline>Error'',
       citations = None\<rparr>]"
    using ask_failure_turn [OF g1 g2 disjI2 [OF h]] by (simp add: chat0_def trim_demo)
  from g1 g2 a b show ?thesis by blast
qed

end
